theory Spec2Isabelle
  imports Complex_Main "HOL-Library.Word" "HOL-Library.Log_Nat" "HOL-Library.Code_Target_Nat"
begin

unbundle bit_operations_syntax

section \<open>Platform values: errors, strings, dates, bytes\<close>

text \<open>
  The module \<^verbatim>\<open>index.js\<close> is a composition of platform functions (Date, String,
  TextEncoder, btoa/atob, WebCrypto AES-CBC, JSON, fetch).  Each platform function is
  modelled after its standard; each function of the module is then translated line by
  line on top of these models.  A rejected promise or a thrown exception is the left
  summand of a sum type.
\<close>

datatype js_error =
    TypeError
  | SyntaxError
  | RangeError
  | InvalidCharacterError
  | DataError
  | OperationError

type_synonym byte = "8 word"

text \<open>
  A JavaScript string is modelled by an Isabelle \<^typ>\<open>string\<close>: a list of code units
  in the range 0..255.  All string constants of the module, all outputs of \<^verbatim>\<open>btoa\<close>
  and \<^verbatim>\<open>atob\<close> and all date digests are of this kind.
\<close>

definition digit_char :: "nat \<Rightarrow> char" where
  "digit_char n = char_of (48 + n)"

fun string_of_nat :: "nat \<Rightarrow> string" where
  "string_of_nat n =
     (if n < 10 then [digit_char n] else string_of_nat (n div 10) @ [digit_char (n mod 10)])"

declare string_of_nat.simps [simp del]

definition js_String :: "int \<Rightarrow> string" where
  \<comment> \<open>\<^verbatim>\<open>String(n)\<close> for an integral number: decimal digits, a minus sign when negative.\<close>
  "js_String i = (if i < 0 then CHR ''-'' # string_of_nat (nat (- i)) else string_of_nat (nat i))"

definition padStart :: "nat \<Rightarrow> char \<Rightarrow> string \<Rightarrow> string" where
  \<comment> \<open>\<^verbatim>\<open>s.padStart(n, c)\<close> for a one-character pad string.\<close>
  "padStart n c s = replicate (n - length s) c @ s"

definition slice :: "nat \<Rightarrow> string \<Rightarrow> string" where
  \<comment> \<open>\<^verbatim>\<open>s.slice(n)\<close> for \<open>n \<ge> 0\<close>.\<close>
  "slice n s = drop n s"

definition char_at :: "string \<Rightarrow> int \<Rightarrow> string option" where
  \<comment> \<open>\<^verbatim>\<open>s[i]\<close>: the one-character string at \<open>i\<close>, or \<^verbatim>\<open>undefined\<close> (\<open>None\<close>) out of range.\<close>
  "char_at s i = (if 0 \<le> i \<and> i < int (length s) then Some [s ! nat i] else None)"

definition to_str :: "string option \<Rightarrow> string" where
  \<comment> \<open>What string concatenation makes of an operand: \<^verbatim>\<open>undefined\<close> becomes its name.\<close>
  "to_str v = (case v of None \<Rightarrow> ''undefined'' | Some s \<Rightarrow> s)"

text \<open>
  A \<^verbatim>\<open>Date\<close> object holding a valid time value, seen through the local-time getters the
  module calls.  \<open>getMonth\<close> is 0-based and \<open>getDay\<close> is the weekday (0 = Sunday), as on the
  platform.  \<open>getTime\<close> is the instant; two readings of the clock on one calendar day
  differ in it only.
\<close>

record Date =
  getDate :: int
  getMonth :: int
  getFullYear :: int
  getDay :: int
  getTime :: int

definition valid_Date :: "Date \<Rightarrow> bool" where
  \<comment> \<open>The ranges the platform guarantees for the getters of a valid \<^verbatim>\<open>Date\<close>.\<close>
  "valid_Date d \<longleftrightarrow>
     1 \<le> getDate d \<and> getDate d \<le> 31 \<and>
     0 \<le> getMonth d \<and> getMonth d \<le> 11 \<and>
     - 271821 \<le> getFullYear d \<and> getFullYear d \<le> 275760 \<and>
     0 \<le> getDay d \<and> getDay d \<le> 6"

definition same_calendar_day :: "Date \<Rightarrow> Date \<Rightarrow> bool" where
  "same_calendar_day a b \<longleftrightarrow>
     getDate a = getDate b \<and> getMonth a = getMonth b \<and>
     getFullYear a = getFullYear b \<and> getDay a = getDay b"

definition four_digit_year :: "Date \<Rightarrow> bool" where
  "four_digit_year d \<longleftrightarrow> 1000 \<le> getFullYear d \<and> getFullYear d \<le> 9999"

section \<open>The date sequence\<close>

text \<open>
  \<^verbatim>\<open>generate_date_seq(date = null)\<close>.  The first argument of the model is the reading of
  the clock, which is what \<^verbatim>\<open>new Date()\<close> returns when \<open>date\<close> is \<^verbatim>\<open>null\<close>.
\<close>

definition generate_date_seq :: "Date \<Rightarrow> Date option \<Rightarrow> string" where
  "generate_date_seq now date =
     (let date = (case date of None \<Rightarrow> now | Some d \<Rightarrow> d);
          day = padStart 2 (CHR ''0'') (js_String (getDate date));
          month = padStart 2 (CHR ''0'') (js_String (getMonth date + 1));
          year = slice 2 (js_String (getFullYear date));
          weekday = js_String (getDay date)
      in to_str (char_at day 0) @ to_str (char_at month 0) @ to_str (char_at year 0) @ weekday
         @ to_str (char_at day 1) @ to_str (char_at month 1) @ to_str (char_at year 1))"

text \<open>
  The sequence as the documentation of the function words it: day and month padded to two
  digits, the last two digits of the year, the weekday digit, interleaved as
  \<open>d[0] m[0] y[0] w d[1] m[1] y[1]\<close>.
\<close>

definition two_digits :: "int \<Rightarrow> string" where
  "two_digits n = [digit_char (nat (n mod 100) div 10), digit_char (nat (n mod 100) mod 10)]"

definition documented_date_seq :: "Date \<Rightarrow> string" where
  "documented_date_seq d =
     (let D = two_digits (getDate d); M = two_digits (getMonth d + 1);
          Y = two_digits (getFullYear d); W = digit_char (nat (getDay d))
      in [D ! 0, M ! 0, Y ! 0, W, D ! 1, M ! 1, Y ! 1])"

section \<open>Wide strings and UTF-8: \<^verbatim>\<open>TextEncoder\<close> and \<^verbatim>\<open>TextDecoder\<close>\<close>

text \<open>
  JSON texts and the strings inside JSON values are lists of 16-bit code units, as on the
  platform.  \<open>wide\<close> embeds a string of code units below 256.
\<close>

type_synonym uchar = "16 word"
type_synonym ustring = "uchar list"

definition uc :: "char \<Rightarrow> uchar" where
  "uc c = of_nat (of_char c)"

definition wide :: "string \<Rightarrow> ustring" where
  "wide s = map uc s"

definition is_high_surrogate :: "uchar \<Rightarrow> bool" where
  "is_high_surrogate u \<longleftrightarrow> 0xD800 \<le> u \<and> u \<le> 0xDBFF"

definition is_low_surrogate :: "uchar \<Rightarrow> bool" where
  "is_low_surrogate u \<longleftrightarrow> 0xDC00 \<le> u \<and> u \<le> 0xDFFF"

definition scalar_of_unit :: "uchar \<Rightarrow> nat" where
  \<comment> \<open>A code unit on its own: an unpaired surrogate is replaced by U+FFFD.\<close>
  "scalar_of_unit u = (if is_high_surrogate u \<or> is_low_surrogate u then 0xFFFD else unat u)"

fun code_points :: "ustring \<Rightarrow> nat list" where
  "code_points (u # v # rest) =
     (if is_high_surrogate u \<and> is_low_surrogate v
      then (0x10000 + (unat u - 0xD800) * 0x400 + (unat v - 0xDC00)) # code_points rest
      else scalar_of_unit u # code_points (v # rest))"
| "code_points [u] = [scalar_of_unit u]"
| "code_points [] = []"

definition utf8_bytes :: "nat \<Rightarrow> nat list" where
  "utf8_bytes cp =
     (if cp < 0x80 then [cp]
      else if cp < 0x800 then [0xC0 + cp div 64, 0x80 + cp mod 64]
      else if cp < 0x10000 then [0xE0 + cp div 4096, 0x80 + cp div 64 mod 64, 0x80 + cp mod 64]
      else [0xF0 + cp div 262144, 0x80 + cp div 4096 mod 64, 0x80 + cp div 64 mod 64,
            0x80 + cp mod 64])"

definition TextEncoder_encode :: "ustring \<Rightarrow> byte list" where
  "TextEncoder_encode s = map of_nat (concat (map utf8_bytes (code_points s)))"

text \<open>
  The UTF-8 decoder of the WHATWG Encoding standard, in replacement mode: the state is
  (code point, bytes seen, bytes needed, lower boundary, upper boundary); a byte that
  cannot continue a sequence ends it with U+FFFD and is read again as a first byte.
\<close>

type_synonym utf8_state = "nat \<times> nat \<times> nat \<times> nat \<times> nat"

definition utf8_init :: utf8_state where
  "utf8_init = (0, 0, 0, 0x80, 0xBF)"

definition utf8_lead :: "nat \<Rightarrow> nat list \<times> utf8_state" where
  "utf8_lead b =
     (if b \<le> 0x7F then ([b], utf8_init)
      else if 0xC2 \<le> b \<and> b \<le> 0xDF then ([], (b mod 32, 0, 1, 0x80, 0xBF))
      else if 0xE0 \<le> b \<and> b \<le> 0xEF
        then ([], (b mod 16, 0, 2, if b = 0xE0 then 0xA0 else 0x80, if b = 0xED then 0x9F else 0xBF))
      else if 0xF0 \<le> b \<and> b \<le> 0xF4
        then ([], (b mod 8, 0, 3, if b = 0xF0 then 0x90 else 0x80, if b = 0xF4 then 0x8F else 0xBF))
      else ([0xFFFD], utf8_init))"

definition utf8_step :: "utf8_state \<Rightarrow> nat \<Rightarrow> nat list \<times> utf8_state" where
  "utf8_step st b =
     (case st of (cp, seen, needed, lower, upper) \<Rightarrow>
        if needed = 0 then utf8_lead b
        else if b < lower \<or> upper < b
          then (case utf8_lead b of (out, st') \<Rightarrow> (0xFFFD # out, st'))
        else let cp' = cp * 64 + b mod 64
             in if seen + 1 = needed then ([cp'], utf8_init)
                else ([], (cp', seen + 1, needed, 0x80, 0xBF)))"

fun utf8_decode :: "utf8_state \<Rightarrow> nat list \<Rightarrow> nat list" where
  "utf8_decode st [] =
     (case st of (cp, seen, needed, lower, upper) \<Rightarrow> if needed \<noteq> 0 then [0xFFFD] else [])"
| "utf8_decode st (b # bs) = (case utf8_step st b of (out, st') \<Rightarrow> out @ utf8_decode st' bs)"

definition utf16_units :: "nat \<Rightarrow> ustring" where
  "utf16_units cp =
     (if cp < 0x10000 then [of_nat cp]
      else [of_nat (0xD800 + (cp - 0x10000) div 0x400), of_nat (0xDC00 + (cp - 0x10000) mod 0x400)])"

definition strip_bom :: "nat list \<Rightarrow> nat list" where
  "strip_bom cps = (case cps of [] \<Rightarrow> [] | c # rest \<Rightarrow> if c = 0xFEFF then rest else cps)"

definition TextDecoder_decode :: "byte list \<Rightarrow> ustring" where
  "TextDecoder_decode bs =
     concat (map utf16_units (strip_bom (utf8_decode utf8_init (map unat bs))))"

definition ascii :: "string \<Rightarrow> bool" where
  "ascii s = list_all (\<lambda>c. (of_char c :: nat) < 128) s"

section \<open>Key derivation\<close>

datatype CryptoKey = CryptoKey (raw_key: "byte list")

definition importKey :: "byte list \<Rightarrow> js_error + CryptoKey" where
  \<comment> \<open>\<^verbatim>\<open>subtle.importKey("raw", keyData, {name: "AES-CBC"}, ...)\<close>: a raw AES key has
      128, 192 or 256 bits; any other length is rejected with a DataError.\<close>
  "importKey keyData =
     (if length keyData \<in> {16, 24, 32} then Inr (CryptoKey keyData) else Inl DataError)"

definition keyData :: "Date \<Rightarrow> Date option \<Rightarrow> byte list" where
  \<comment> \<open>The local \<^verbatim>\<open>keyData\<close> of \<^verbatim>\<open>generate_key\<close>.\<close>
  "keyData now date = TextEncoder_encode (wide (''qa8y'' @ generate_date_seq now date @ ''ty1pn''))"

definition generate_key :: "Date \<Rightarrow> Date option \<Rightarrow> js_error + CryptoKey" where
  "generate_key now date = importKey (keyData now date)"

section \<open>Base64: \<^verbatim>\<open>btoa\<close> and \<^verbatim>\<open>atob\<close>\<close>

definition b64_alphabet :: string where
  "b64_alphabet = ''ABCDEFGHIJKLMNOPQRSTUVWXYZabcdefghijklmnopqrstuvwxyz0123456789+/''"

definition b64_char :: "nat \<Rightarrow> char" where
  "b64_char i = b64_alphabet ! (i mod 64)"

definition b64_index :: "uchar \<Rightarrow> nat option" where
  "b64_index c =
     (let n = unat c
      in if 65 \<le> n \<and> n \<le> 90 then Some (n - 65)
         else if 97 \<le> n \<and> n \<le> 122 then Some (n - 71)
         else if 48 \<le> n \<and> n \<le> 57 then Some (n + 4)
         else if n = 43 then Some 62
         else if n = 47 then Some 63
         else None)"

fun b64_encode :: "nat list \<Rightarrow> string" where
  "b64_encode (a # b # c # rest) =
     (let n = a * 65536 + b * 256 + c
      in b64_char (n div 262144) # b64_char (n div 4096) # b64_char (n div 64) # b64_char n
         # b64_encode rest)"
| "b64_encode [a, b] =
     (let n = a * 65536 + b * 256
      in [b64_char (n div 262144), b64_char (n div 4096), b64_char (n div 64), CHR ''='']) "
| "b64_encode [a] =
     (let n = a * 65536
      in [b64_char (n div 262144), b64_char (n div 4096), CHR ''='', CHR ''=''])"
| "b64_encode [] = []"

definition btoa :: "string \<Rightarrow> string" where
  \<comment> \<open>\<^verbatim>\<open>btoa\<close> throws on a code unit above 255 only; the strings of the model have none.\<close>
  "btoa s = b64_encode (map of_char s)"

definition is_ascii_whitespace :: "uchar \<Rightarrow> bool" where
  "is_ascii_whitespace c \<longleftrightarrow> unat c \<in> {9, 10, 12, 13, 32}"

definition strip_padding :: "ustring \<Rightarrow> ustring" where
  \<comment> \<open>Forgiving base64, step 2: a length divisible by 4 loses one or two trailing \<open>=\<close>.\<close>
  "strip_padding d =
     (if length d mod 4 = 0
      then (case rev d of
              x # y # r \<Rightarrow>
                if x = 61 \<and> y = 61 then rev r
                else if x = 61 then rev (y # r) else d
            | _ \<Rightarrow> d)
      else d)"

fun b64_decode :: "nat list \<Rightarrow> nat list" where
  "b64_decode (a # b # c # d # rest) =
     (let n = a * 262144 + b * 4096 + c * 64 + d
      in n div 65536 # n div 256 mod 256 # n mod 256 # b64_decode rest)"
| "b64_decode [a, b, c] =
     (let n = a * 262144 + b * 4096 + c * 64 in [n div 65536, n div 256 mod 256])"
| "b64_decode [a, b] = (let n = a * 262144 + b * 4096 in [n div 65536])"
| "b64_decode [a] = []"
| "b64_decode [] = []"

definition atob :: "ustring \<Rightarrow> js_error + string" where
  \<comment> \<open>The forgiving-base64 decode of the WHATWG Infra standard; the result is a string of
      code units below 256.\<close>
  "atob data =
     (let d = strip_padding (filter (\<lambda>c. \<not> is_ascii_whitespace c) data)
      in if length d mod 4 = 1 then Inl InvalidCharacterError
         else (case those (map b64_index d) of
                 None \<Rightarrow> Inl InvalidCharacterError
               | Some sextets \<Rightarrow> Inr (map char_of (b64_decode sextets))))"

definition String_fromCharCode :: "byte list \<Rightarrow> string" where
  "String_fromCharCode data = map (\<lambda>b. char_of (unat b)) data"

definition base64Encode :: "byte list \<Rightarrow> string" where
  "base64Encode data = btoa (String_fromCharCode data)"

definition base64Decode :: "ustring \<Rightarrow> js_error + byte list" where
  "base64Decode data =
     (case atob data of
        Inl e \<Rightarrow> Inl e
      | Inr s \<Rightarrow> Inr (map (\<lambda>c. of_nat (of_char c)) s))"

section \<open>AES (FIPS 197)\<close>

text \<open>
  The block cipher behind \<^verbatim>\<open>subtle.encrypt\<close> and \<^verbatim>\<open>subtle.decrypt\<close>.  The state is held
  as four columns of four bytes, in the order of the input block.
\<close>

type_synonym aes_word = "byte \<times> byte \<times> byte \<times> byte"
type_synonym aes_state = "aes_word \<times> aes_word \<times> aes_word \<times> aes_word"

definition sbox_table :: "byte list" where
  "sbox_table = [
      0x63, 0x7c, 0x77, 0x7b, 0xf2, 0x6b, 0x6f, 0xc5, 0x30, 0x01, 0x67, 0x2b, 0xfe, 0xd7, 0xab, 0x76,
      0xca, 0x82, 0xc9, 0x7d, 0xfa, 0x59, 0x47, 0xf0, 0xad, 0xd4, 0xa2, 0xaf, 0x9c, 0xa4, 0x72, 0xc0,
      0xb7, 0xfd, 0x93, 0x26, 0x36, 0x3f, 0xf7, 0xcc, 0x34, 0xa5, 0xe5, 0xf1, 0x71, 0xd8, 0x31, 0x15,
      0x04, 0xc7, 0x23, 0xc3, 0x18, 0x96, 0x05, 0x9a, 0x07, 0x12, 0x80, 0xe2, 0xeb, 0x27, 0xb2, 0x75,
      0x09, 0x83, 0x2c, 0x1a, 0x1b, 0x6e, 0x5a, 0xa0, 0x52, 0x3b, 0xd6, 0xb3, 0x29, 0xe3, 0x2f, 0x84,
      0x53, 0xd1, 0x00, 0xed, 0x20, 0xfc, 0xb1, 0x5b, 0x6a, 0xcb, 0xbe, 0x39, 0x4a, 0x4c, 0x58, 0xcf,
      0xd0, 0xef, 0xaa, 0xfb, 0x43, 0x4d, 0x33, 0x85, 0x45, 0xf9, 0x02, 0x7f, 0x50, 0x3c, 0x9f, 0xa8,
      0x51, 0xa3, 0x40, 0x8f, 0x92, 0x9d, 0x38, 0xf5, 0xbc, 0xb6, 0xda, 0x21, 0x10, 0xff, 0xf3, 0xd2,
      0xcd, 0x0c, 0x13, 0xec, 0x5f, 0x97, 0x44, 0x17, 0xc4, 0xa7, 0x7e, 0x3d, 0x64, 0x5d, 0x19, 0x73,
      0x60, 0x81, 0x4f, 0xdc, 0x22, 0x2a, 0x90, 0x88, 0x46, 0xee, 0xb8, 0x14, 0xde, 0x5e, 0x0b, 0xdb,
      0xe0, 0x32, 0x3a, 0x0a, 0x49, 0x06, 0x24, 0x5c, 0xc2, 0xd3, 0xac, 0x62, 0x91, 0x95, 0xe4, 0x79,
      0xe7, 0xc8, 0x37, 0x6d, 0x8d, 0xd5, 0x4e, 0xa9, 0x6c, 0x56, 0xf4, 0xea, 0x65, 0x7a, 0xae, 0x08,
      0xba, 0x78, 0x25, 0x2e, 0x1c, 0xa6, 0xb4, 0xc6, 0xe8, 0xdd, 0x74, 0x1f, 0x4b, 0xbd, 0x8b, 0x8a,
      0x70, 0x3e, 0xb5, 0x66, 0x48, 0x03, 0xf6, 0x0e, 0x61, 0x35, 0x57, 0xb9, 0x86, 0xc1, 0x1d, 0x9e,
      0xe1, 0xf8, 0x98, 0x11, 0x69, 0xd9, 0x8e, 0x94, 0x9b, 0x1e, 0x87, 0xe9, 0xce, 0x55, 0x28, 0xdf,
      0x8c, 0xa1, 0x89, 0x0d, 0xbf, 0xe6, 0x42, 0x68, 0x41, 0x99, 0x2d, 0x0f, 0xb0, 0x54, 0xbb, 0x16]"

definition inv_sbox_table :: "byte list" where
  "inv_sbox_table = [
      0x52, 0x09, 0x6a, 0xd5, 0x30, 0x36, 0xa5, 0x38, 0xbf, 0x40, 0xa3, 0x9e, 0x81, 0xf3, 0xd7, 0xfb,
      0x7c, 0xe3, 0x39, 0x82, 0x9b, 0x2f, 0xff, 0x87, 0x34, 0x8e, 0x43, 0x44, 0xc4, 0xde, 0xe9, 0xcb,
      0x54, 0x7b, 0x94, 0x32, 0xa6, 0xc2, 0x23, 0x3d, 0xee, 0x4c, 0x95, 0x0b, 0x42, 0xfa, 0xc3, 0x4e,
      0x08, 0x2e, 0xa1, 0x66, 0x28, 0xd9, 0x24, 0xb2, 0x76, 0x5b, 0xa2, 0x49, 0x6d, 0x8b, 0xd1, 0x25,
      0x72, 0xf8, 0xf6, 0x64, 0x86, 0x68, 0x98, 0x16, 0xd4, 0xa4, 0x5c, 0xcc, 0x5d, 0x65, 0xb6, 0x92,
      0x6c, 0x70, 0x48, 0x50, 0xfd, 0xed, 0xb9, 0xda, 0x5e, 0x15, 0x46, 0x57, 0xa7, 0x8d, 0x9d, 0x84,
      0x90, 0xd8, 0xab, 0x00, 0x8c, 0xbc, 0xd3, 0x0a, 0xf7, 0xe4, 0x58, 0x05, 0xb8, 0xb3, 0x45, 0x06,
      0xd0, 0x2c, 0x1e, 0x8f, 0xca, 0x3f, 0x0f, 0x02, 0xc1, 0xaf, 0xbd, 0x03, 0x01, 0x13, 0x8a, 0x6b,
      0x3a, 0x91, 0x11, 0x41, 0x4f, 0x67, 0xdc, 0xea, 0x97, 0xf2, 0xcf, 0xce, 0xf0, 0xb4, 0xe6, 0x73,
      0x96, 0xac, 0x74, 0x22, 0xe7, 0xad, 0x35, 0x85, 0xe2, 0xf9, 0x37, 0xe8, 0x1c, 0x75, 0xdf, 0x6e,
      0x47, 0xf1, 0x1a, 0x71, 0x1d, 0x29, 0xc5, 0x89, 0x6f, 0xb7, 0x62, 0x0e, 0xaa, 0x18, 0xbe, 0x1b,
      0xfc, 0x56, 0x3e, 0x4b, 0xc6, 0xd2, 0x79, 0x20, 0x9a, 0xdb, 0xc0, 0xfe, 0x78, 0xcd, 0x5a, 0xf4,
      0x1f, 0xdd, 0xa8, 0x33, 0x88, 0x07, 0xc7, 0x31, 0xb1, 0x12, 0x10, 0x59, 0x27, 0x80, 0xec, 0x5f,
      0x60, 0x51, 0x7f, 0xa9, 0x19, 0xb5, 0x4a, 0x0d, 0x2d, 0xe5, 0x7a, 0x9f, 0x93, 0xc9, 0x9c, 0xef,
      0xa0, 0xe0, 0x3b, 0x4d, 0xae, 0x2a, 0xf5, 0xb0, 0xc8, 0xeb, 0xbb, 0x3c, 0x83, 0x53, 0x99, 0x61,
      0x17, 0x2b, 0x04, 0x7e, 0xba, 0x77, 0xd6, 0x26, 0xe1, 0x69, 0x14, 0x63, 0x55, 0x21, 0x0c, 0x7d]"

definition sbox :: "byte \<Rightarrow> byte" where
  "sbox b = sbox_table ! unat b"

definition inv_sbox :: "byte \<Rightarrow> byte" where
  "inv_sbox b = inv_sbox_table ! unat b"

definition xtime :: "byte \<Rightarrow> byte" where
  "xtime a = push_bit 1 a XOR (if bit a 7 then 0x1b else 0)"

definition mul3 :: "byte \<Rightarrow> byte" where
  "mul3 a = xtime a XOR a"

definition mul9 :: "byte \<Rightarrow> byte" where
  "mul9 a = xtime (xtime (xtime a)) XOR a"

definition mul11 :: "byte \<Rightarrow> byte" where
  "mul11 a = xtime (xtime (xtime a)) XOR xtime a XOR a"

definition mul13 :: "byte \<Rightarrow> byte" where
  "mul13 a = xtime (xtime (xtime a)) XOR xtime (xtime a) XOR a"

definition mul14 :: "byte \<Rightarrow> byte" where
  "mul14 a = xtime (xtime (xtime a)) XOR xtime (xtime a) XOR xtime a"

fun map_word :: "(byte \<Rightarrow> byte) \<Rightarrow> aes_word \<Rightarrow> aes_word" where
  "map_word f (a, b, c, d) = (f a, f b, f c, f d)"

fun xor_word :: "aes_word \<Rightarrow> aes_word \<Rightarrow> aes_word" where
  "xor_word (a, b, c, d) (a', b', c', d') = (a XOR a', b XOR b', c XOR c', d XOR d')"

fun sub_bytes :: "aes_state \<Rightarrow> aes_state" where
  "sub_bytes (c0, c1, c2, c3) =
     (map_word sbox c0, map_word sbox c1, map_word sbox c2, map_word sbox c3)"

fun inv_sub_bytes :: "aes_state \<Rightarrow> aes_state" where
  "inv_sub_bytes (c0, c1, c2, c3) =
     (map_word inv_sbox c0, map_word inv_sbox c1, map_word inv_sbox c2, map_word inv_sbox c3)"

fun shift_rows :: "aes_state \<Rightarrow> aes_state" where
  "shift_rows ((a0, a1, a2, a3), (b0, b1, b2, b3), (c0, c1, c2, c3), (d0, d1, d2, d3)) =
     ((a0, b1, c2, d3), (b0, c1, d2, a3), (c0, d1, a2, b3), (d0, a1, b2, c3))"

fun inv_shift_rows :: "aes_state \<Rightarrow> aes_state" where
  "inv_shift_rows ((a0, a1, a2, a3), (b0, b1, b2, b3), (c0, c1, c2, c3), (d0, d1, d2, d3)) =
     ((a0, d1, c2, b3), (b0, a1, d2, c3), (c0, b1, a2, d3), (d0, c1, b2, a3))"

fun mix_column :: "aes_word \<Rightarrow> aes_word" where
  "mix_column (a0, a1, a2, a3) =
     (xtime a0 XOR mul3 a1 XOR a2 XOR a3,
      a0 XOR xtime a1 XOR mul3 a2 XOR a3,
      a0 XOR a1 XOR xtime a2 XOR mul3 a3,
      mul3 a0 XOR a1 XOR a2 XOR xtime a3)"

fun inv_mix_column :: "aes_word \<Rightarrow> aes_word" where
  "inv_mix_column (a0, a1, a2, a3) =
     (mul14 a0 XOR mul11 a1 XOR mul13 a2 XOR mul9 a3,
      mul9 a0 XOR mul14 a1 XOR mul11 a2 XOR mul13 a3,
      mul13 a0 XOR mul9 a1 XOR mul14 a2 XOR mul11 a3,
      mul11 a0 XOR mul13 a1 XOR mul9 a2 XOR mul14 a3)"

fun mix_columns :: "aes_state \<Rightarrow> aes_state" where
  "mix_columns (c0, c1, c2, c3) = (mix_column c0, mix_column c1, mix_column c2, mix_column c3)"

fun inv_mix_columns :: "aes_state \<Rightarrow> aes_state" where
  "inv_mix_columns (c0, c1, c2, c3) =
     (inv_mix_column c0, inv_mix_column c1, inv_mix_column c2, inv_mix_column c3)"

fun add_round_key :: "aes_state \<Rightarrow> aes_state \<Rightarrow> aes_state" where
  "add_round_key (k0, k1, k2, k3) (c0, c1, c2, c3) =
     (xor_word c0 k0, xor_word c1 k1, xor_word c2 k2, xor_word c3 k3)"

fun rot_word :: "aes_word \<Rightarrow> aes_word" where
  "rot_word (a, b, c, d) = (b, c, d, a)"

definition rcon :: "nat \<Rightarrow> aes_word" where
  "rcon i = ((xtime ^^ (i - 1)) 1, 0, 0, 0)"

definition next_key_word :: "nat \<Rightarrow> aes_word list \<Rightarrow> aes_word" where
  "next_key_word Nk w =
     (let i = length w;
          temp = w ! (i - 1);
          temp' = (if i mod Nk = 0 then xor_word (map_word sbox (rot_word temp)) (rcon (i div Nk))
                   else if 6 < Nk \<and> i mod Nk = 4 then map_word sbox temp
                   else temp)
      in xor_word (w ! (i - Nk)) temp')"

definition key_expansion :: "aes_word list \<Rightarrow> aes_word list" where
  \<comment> \<open>\<open>Nk\<close> key words give \<open>4 * (Nr + 1)\<close> words, with \<open>Nr = Nk + 6\<close> rounds.\<close>
  "key_expansion key =
     (let Nk = length key
      in ((\<lambda>w. w @ [next_key_word Nk w]) ^^ (4 * (Nk + 7) - Nk)) key)"

fun words_of_bytes :: "byte list \<Rightarrow> aes_word list" where
  "words_of_bytes (a # b # c # d # rest) = (a, b, c, d) # words_of_bytes rest"
| "words_of_bytes _ = []"

fun states_of_words :: "aes_word list \<Rightarrow> aes_state list" where
  "states_of_words (a # b # c # d # rest) = (a, b, c, d) # states_of_words rest"
| "states_of_words _ = []"

definition round_keys :: "CryptoKey \<Rightarrow> aes_state list" where
  "round_keys key = states_of_words (key_expansion (words_of_bytes (raw_key key)))"

fun rounds :: "aes_state list \<Rightarrow> aes_state \<Rightarrow> aes_state" where
  "rounds [] s = s"
| "rounds [k] s = add_round_key k (shift_rows (sub_bytes s))"
| "rounds (k # ks) s = rounds ks (add_round_key k (mix_columns (shift_rows (sub_bytes s))))"

fun inv_rounds :: "aes_state list \<Rightarrow> aes_state \<Rightarrow> aes_state" where
  "inv_rounds [] s = s"
| "inv_rounds [k] s = inv_sub_bytes (inv_shift_rows (add_round_key k s))"
| "inv_rounds (k # ks) s =
     inv_sub_bytes (inv_shift_rows (inv_mix_columns (add_round_key k (inv_rounds ks s))))"

fun cipher :: "aes_state list \<Rightarrow> aes_state \<Rightarrow> aes_state" where
  "cipher [] s = s"
| "cipher (k # ks) s = rounds ks (add_round_key k s)"

fun inv_cipher :: "aes_state list \<Rightarrow> aes_state \<Rightarrow> aes_state" where
  "inv_cipher [] s = s"
| "inv_cipher (k # ks) s = add_round_key k (inv_rounds ks s)"

section \<open>AES-CBC with PKCS7 padding: \<^verbatim>\<open>subtle.encrypt\<close> and \<^verbatim>\<open>subtle.decrypt\<close>\<close>

definition blocks_of_bytes :: "byte list \<Rightarrow> aes_state list" where
  "blocks_of_bytes bs = states_of_words (words_of_bytes bs)"

fun bytes_of_word :: "aes_word \<Rightarrow> byte list" where
  "bytes_of_word (a, b, c, d) = [a, b, c, d]"

fun bytes_of_state :: "aes_state \<Rightarrow> byte list" where
  "bytes_of_state (c0, c1, c2, c3) =
     bytes_of_word c0 @ bytes_of_word c1 @ bytes_of_word c2 @ bytes_of_word c3"

definition bytes_of_blocks :: "aes_state list \<Rightarrow> byte list" where
  "bytes_of_blocks ss = concat (map bytes_of_state ss)"

fun cbc_encrypt :: "aes_state list \<Rightarrow> aes_state \<Rightarrow> aes_state list \<Rightarrow> aes_state list" where
  "cbc_encrypt ks prev [] = []"
| "cbc_encrypt ks prev (p # ps) =
     (let c = cipher ks (add_round_key prev p) in c # cbc_encrypt ks c ps)"

fun cbc_decrypt :: "aes_state list \<Rightarrow> aes_state \<Rightarrow> aes_state list \<Rightarrow> aes_state list" where
  "cbc_decrypt ks prev [] = []"
| "cbc_decrypt ks prev (c # cs) = add_round_key prev (inv_cipher ks c) # cbc_decrypt ks c cs"

definition pkcs7_pad :: "byte list \<Rightarrow> byte list" where
  "pkcs7_pad data = (let n = 16 - length data mod 16 in data @ replicate n (of_nat n))"

definition pkcs7_unpad :: "byte list \<Rightarrow> js_error + byte list" where
  "pkcs7_unpad padded =
     (if padded = [] then Inl OperationError
      else let p = unat (last padded)
           in if p = 0 \<or> 16 < p \<or> length padded < p
                 \<or> drop (length padded - p) padded \<noteq> replicate p (last padded)
              then Inl OperationError
              else Inr (take (length padded - p) padded))"

definition subtle_encrypt :: "byte list \<Rightarrow> CryptoKey \<Rightarrow> byte list \<Rightarrow> js_error + byte list" where
  "subtle_encrypt iv key data =
     (if length iv \<noteq> 16 then Inl OperationError
      else Inr (bytes_of_blocks
                  (cbc_encrypt (round_keys key) (hd (blocks_of_bytes iv))
                     (blocks_of_bytes (pkcs7_pad data)))))"

definition subtle_decrypt :: "byte list \<Rightarrow> CryptoKey \<Rightarrow> byte list \<Rightarrow> js_error + byte list" where
  "subtle_decrypt iv key data =
     (if length iv \<noteq> 16 then Inl OperationError
      else if length data = 0 \<or> length data mod 16 \<noteq> 0 then Inl OperationError
      else pkcs7_unpad
             (bytes_of_blocks
                (cbc_decrypt (round_keys key) (hd (blocks_of_bytes iv)) (blocks_of_bytes data))))"

section \<open>The cipher of the module\<close>

definition IV :: "byte list" where
  "IV = TextEncoder_encode (wide ''dcek9wb8frty1pnm'')"

text \<open>
  \<^verbatim>\<open>encrypt\<close> and \<^verbatim>\<open>decrypt\<close> call \<^verbatim>\<open>generate_key()\<close> with no argument: the key is that
  of the reading \<open>now\<close> of the clock at the call.
\<close>

definition encrypt :: "Date \<Rightarrow> byte list \<Rightarrow> js_error + byte list" where
  "encrypt now data =
     (case generate_key now None of
        Inl e \<Rightarrow> Inl e
      | Inr key \<Rightarrow> subtle_encrypt IV key data)"

definition decrypt :: "Date \<Rightarrow> byte list \<Rightarrow> js_error + byte list" where
  "decrypt now data =
     (case generate_key now None of
        Inl e \<Rightarrow> Inl e
      | Inr key \<Rightarrow> subtle_decrypt IV key data)"

section \<open>The local name\<close>

text \<open>
  The numbers of the platform are the double-precision numbers of IEEE 754: 53 bits of
  precision, the least exponent -1022.  An arithmetic operation returns the double nearest
  to the exact result, the one with an even significand when two are equally near.
  \<open>double_round\<close> is this rounding, for exact results below \<open>2 ^ 1024\<close> in absolute value;
  \<open>binade x\<close> is the exponent \<open>e\<close> with \<open>2 ^ e \<le> x < 2 ^ (e + 1)\<close>, for positive \<open>x\<close>.
\<close>

definition pow2 :: "int \<Rightarrow> real" where
  "pow2 k = (if 0 \<le> k then 2 ^ nat k else 1 / 2 ^ nat (- k))"

definition binade :: "real \<Rightarrow> int" where
  "binade x =
     (if 1 \<le> x then bitlen \<lfloor>x\<rfloor> - 1
      else let b = bitlen \<lfloor>1 / x\<rfloor> in if x * 2 ^ nat (b - 1) = 1 then 1 - b else - b)"

definition round_half_even :: "real \<Rightarrow> int" where
  "round_half_even q =
     (let f = \<lfloor>q\<rfloor>; d = q - of_int f
      in if d < 1 / 2 then f else if 1 / 2 < d then f + 1 else if even f then f else f + 1)"

definition double_round :: "real \<Rightarrow> real" where
  "double_round x =
     (if x = 0 then 0
      else let u = pow2 (max (binade \<bar>x\<bar>) (- 1022) - 52)
           in sgn x * of_int (round_half_even (\<bar>x\<bar> / u)) * u)"

definition is_double :: "real \<Rightarrow> bool" where
  \<comment> \<open>The finite doubles.\<close>
  "is_double x \<longleftrightarrow> double_round x = x \<and> bitlen \<lfloor>\<bar>x\<bar>\<rfloor> \<le> 1024"

definition double_times :: "real \<Rightarrow> real \<Rightarrow> real" where
  \<comment> \<open>The operator \<^verbatim>\<open>*\<close> on two doubles.\<close>
  "double_times x y = double_round (x * y)"

text \<open>
  \<^verbatim>\<open>Math.random()\<close> is a source of numbers: the state is the sequence of the numbers still
  to come, each of them a double that is at least 0 and less than 1.
\<close>

type_synonym rng = "nat \<Rightarrow> real"

definition Math_random :: "rng \<Rightarrow> real \<times> rng" where
  "Math_random g = (g 0, \<lambda>i. g (Suc i))"

definition valid_rng :: "rng \<Rightarrow> bool" where
  "valid_rng g \<longleftrightarrow> (\<forall>i. is_double (g i) \<and> 0 \<le> g i \<and> g i < 1)"

definition charset :: string where
  "charset = ''0123456789abcdefghijklmnopqrstuvwxyzABCDEFGHIJKLMNOPQRSTUVWXYZ''"

fun random_chars :: "nat \<Rightarrow> string \<Rightarrow> rng \<Rightarrow> string \<times> rng" where
  \<comment> \<open>The loop of \<^verbatim>\<open>get_random_char_seq\<close>, with the iterations left and \<open>result\<close>.\<close>
  "random_chars 0 result g = (result, g)"
| "random_chars (Suc k) result g =
     (let (r, g') = Math_random g;
          randomIndex = \<lfloor>double_times r (real (length charset))\<rfloor>
      in random_chars k (result @ to_str (char_at charset randomIndex)) g')"

definition get_random_char_seq :: "nat \<Rightarrow> rng \<Rightarrow> string \<times> rng" where
  "get_random_char_seq n g = random_chars n [] g"

definition local_name_text :: "Date \<Rightarrow> rng \<Rightarrow> Date option \<Rightarrow> string \<times> rng" where
  \<comment> \<open>The text \<^verbatim>\<open>randomCharSeq + dateSeq + randomSuffix\<close> of \<^verbatim>\<open>generate_local_name\<close>.\<close>
  "local_name_text now g date =
     (let (randomCharSeq, g1) = get_random_char_seq 4 g;
          dateSeq = generate_date_seq now date;
          (randomSuffix, g2) = get_random_char_seq 5 g1
      in (randomCharSeq @ dateSeq @ randomSuffix, g2))"

definition generate_local_name ::
  "Date \<Rightarrow> Date \<Rightarrow> rng \<Rightarrow> Date option \<Rightarrow> (js_error + string) \<times> rng" where
  \<comment> \<open>\<open>now\<close> is the reading of the clock in \<^verbatim>\<open>generate_date_seq\<close> (taken when \<open>date\<close> is
      \<^verbatim>\<open>null\<close>), \<open>now'\<close> the later one in \<^verbatim>\<open>encrypt\<close>.\<close>
  "generate_local_name now now' g date =
     (let (text, g') = local_name_text now g date;
          nameBytes = TextEncoder_encode (wide text)
      in (case encrypt now' nameBytes of
            Inl e \<Rightarrow> (Inl e, g')
          | Inr encryptedBytes \<Rightarrow> (Inr (base64Encode encryptedBytes), g')))"

section \<open>JavaScript values and JSON\<close>

text \<open>
  The values that JSON texts denote, together with \<^verbatim>\<open>undefined\<close> and BigInt (which
  \<^verbatim>\<open>JSON.stringify\<close> refuses).  A finite number is the real it denotes, a double; the
  numbers \<^verbatim>\<open>NaN\<close>, \<^verbatim>\<open>Infinity\<close> and \<^verbatim>\<open>-Infinity\<close> stand apart, and the two zeros are not
  told apart.  An object is the list of its properties in the order of their creation.
\<close>

datatype nonfinite = NaN | PosInfinity | NegInfinity

datatype js =
    JUndefined
  | JNull
  | JBool bool
  | JNumber real
  | JNonFinite nonfinite
  | JBigInt int
  | JString ustring
  | JArray "js list"
  | JObject "(ustring \<times> js) list"

definition bind_result :: "'e + 'a \<Rightarrow> ('a \<Rightarrow> 'e + 'b) \<Rightarrow> 'e + 'b" where
  \<comment> \<open>Sequencing: a thrown error ends the computation.\<close>
  "bind_result r f = (case r of Inl e \<Rightarrow> Inl e | Inr x \<Rightarrow> f x)"

definition get_prop :: "js \<Rightarrow> string \<Rightarrow> js_error + js" where
  \<comment> \<open>\<^verbatim>\<open>v[k]\<close> for a property name \<open>k\<close> that no built-in prototype defines (all the names
      the module reads are such): a TypeError on \<^verbatim>\<open>undefined\<close> and \<^verbatim>\<open>null\<close>.\<close>
  "get_prop v k =
     (case v of
        JUndefined \<Rightarrow> Inl TypeError
      | JNull \<Rightarrow> Inl TypeError
      | JObject kvs \<Rightarrow> Inr (case map_of kvs (wide k) of None \<Rightarrow> JUndefined | Some x \<Rightarrow> x)
      | _ \<Rightarrow> Inr JUndefined)"

definition get_index0 :: "js \<Rightarrow> js_error + js" where
  \<comment> \<open>\<^verbatim>\<open>v[0]\<close>.\<close>
  "get_index0 v =
     (case v of
        JUndefined \<Rightarrow> Inl TypeError
      | JNull \<Rightarrow> Inl TypeError
      | JArray xs \<Rightarrow> Inr (case xs of [] \<Rightarrow> JUndefined | x # _ \<Rightarrow> x)
      | JString s \<Rightarrow> Inr (case s of [] \<Rightarrow> JUndefined | c # _ \<Rightarrow> JString [c])
      | JObject kvs \<Rightarrow> Inr (case map_of kvs (wide ''0'') of None \<Rightarrow> JUndefined | Some x \<Rightarrow> x)
      | _ \<Rightarrow> Inr JUndefined)"

fun obj_set :: "(ustring \<times> js) list \<Rightarrow> ustring \<Rightarrow> js \<Rightarrow> (ustring \<times> js) list" where
  "obj_set [] k v = [(k, v)]"
| "obj_set ((k', v') # rest) k v =
     (if k' = k then (k, v) # rest else (k', v') # obj_set rest k v)"


subsection \<open>\<^verbatim>\<open>JSON.stringify\<close>\<close>

primrec frac_digits :: "nat \<Rightarrow> real \<Rightarrow> ustring" where
  "frac_digits 0 f = []"
| "frac_digits (Suc n) f =
     (if f = 0 then []
      else let d = \<lfloor>f * 10\<rfloor> in uc (digit_char (nat d)) # frac_digits n (f * 10 - of_int d))"

definition number_to_string :: "real \<Rightarrow> ustring" where
  \<comment> \<open>Decimal notation, as the platform prints numbers between \<open>10\<^sup>-\<^sup>6\<close> and \<open>10\<^sup>2\<^sup>1\<close>.\<close>
  "number_to_string r =
     (let a = \<bar>r\<bar>; i = \<lfloor>a\<rfloor>; f = a - of_int i
      in (if r < 0 then [uc CHR ''-''] else []) @ wide (string_of_nat (nat i))
         @ (if f = 0 then [] else uc CHR ''.'' # frac_digits 400 f))"

definition hex_digit :: "nat \<Rightarrow> uchar" where
  "hex_digit n = uc (''0123456789abcdef'' ! (n mod 16))"

definition quote_unit :: "uchar \<Rightarrow> ustring" where
  "quote_unit u =
     (if u = 8 then [0x5C, uc CHR ''b'']
      else if u = 9 then [0x5C, uc CHR ''t'']
      else if u = 10 then [0x5C, uc CHR ''n'']
      else if u = 12 then [0x5C, uc CHR ''f'']
      else if u = 13 then [0x5C, uc CHR ''r'']
      else if u = 0x22 then [0x5C, 0x22]
      else if u = 0x5C then [0x5C, 0x5C]
      else if u < 0x20 \<or> is_high_surrogate u \<or> is_low_surrogate u
        then [0x5C, uc CHR ''u'', hex_digit (unat u div 4096), hex_digit (unat u div 256),
              hex_digit (unat u div 16), hex_digit (unat u)]
      else [u])"

fun quote_units :: "ustring \<Rightarrow> ustring" where
  "quote_units (u # v # rest) =
     (if is_high_surrogate u \<and> is_low_surrogate v then u # v # quote_units rest
      else quote_unit u @ quote_units (v # rest))"
| "quote_units [u] = quote_unit u"
| "quote_units [] = []"

definition JSON_quote :: "ustring \<Rightarrow> ustring" where
  "JSON_quote s = 0x22 # quote_units s @ [0x22]"

fun join :: "ustring \<Rightarrow> ustring list \<Rightarrow> ustring" where
  "join sep [] = []"
| "join sep [x] = x"
| "join sep (x # y # rest) = x @ sep @ join sep (y # rest)"

fun JSON_serialize :: "js \<Rightarrow> js_error + ustring option"
  and serialize_elements :: "js list \<Rightarrow> js_error + ustring list"
  and serialize_properties :: "(ustring \<times> js) list \<Rightarrow> js_error + ustring list"
where
  "JSON_serialize JUndefined = Inr None"
| "JSON_serialize JNull = Inr (Some (wide ''null''))"
| "JSON_serialize (JBool b) = Inr (Some (wide (if b then ''true'' else ''false'')))"
| "JSON_serialize (JNumber r) = Inr (Some (number_to_string r))"
| "JSON_serialize (JNonFinite x) = Inr (Some (wide ''null''))"
| "JSON_serialize (JBigInt i) = Inl TypeError"
| "JSON_serialize (JString s) = Inr (Some (JSON_quote s))"
| "JSON_serialize (JArray xs) =
     (case serialize_elements xs of
        Inl e \<Rightarrow> Inl e
      | Inr parts \<Rightarrow> Inr (Some (wide ''['' @ join (wide '','') parts @ wide '']'')))"
| "JSON_serialize (JObject kvs) =
     (case serialize_properties kvs of
        Inl e \<Rightarrow> Inl e
      | Inr parts \<Rightarrow> Inr (Some (wide ''{'' @ join (wide '','') parts @ wide ''}'')))"
| "serialize_elements [] = Inr []"
| "serialize_elements (x # xs) =
     (case JSON_serialize x of
        Inl e \<Rightarrow> Inl e
      | Inr p \<Rightarrow>
          (case serialize_elements xs of
             Inl e \<Rightarrow> Inl e
           | Inr ps \<Rightarrow> Inr ((case p of None \<Rightarrow> wide ''null'' | Some t \<Rightarrow> t) # ps)))"
| "serialize_properties [] = Inr []"
| "serialize_properties (kv # kvs) =
     (case JSON_serialize (snd kv) of
        Inl e \<Rightarrow> Inl e
      | Inr p \<Rightarrow>
          (case serialize_properties kvs of
             Inl e \<Rightarrow> Inl e
           | Inr ps \<Rightarrow>
               Inr ((case p of None \<Rightarrow> [] | Some t \<Rightarrow> [JSON_quote (fst kv) @ wide '':'' @ t]) @ ps)))"


subsection \<open>\<^verbatim>\<open>JSON.parse\<close>\<close>

definition is_json_ws :: "uchar \<Rightarrow> bool" where
  "is_json_ws u \<longleftrightarrow> u = 0x20 \<or> u = 0x09 \<or> u = 0x0A \<or> u = 0x0D"

definition skip_ws :: "ustring \<Rightarrow> ustring" where
  "skip_ws s = dropWhile is_json_ws s"

definition digit_val :: "uchar \<Rightarrow> nat option" where
  "digit_val u = (if 0x30 \<le> u \<and> u \<le> 0x39 then Some (unat u - 48) else None)"

fun take_digits :: "ustring \<Rightarrow> nat list \<times> ustring" where
  "take_digits [] = ([], [])"
| "take_digits (u # rest) =
     (case digit_val u of
        None \<Rightarrow> ([], u # rest)
      | Some d \<Rightarrow> (case take_digits rest of (ds, r) \<Rightarrow> (d # ds, r)))"

definition int_of_digits :: "nat list \<Rightarrow> int" where
  "int_of_digits ds = foldl (\<lambda>a d. 10 * a + int d) 0 ds"

definition hex_val :: "uchar \<Rightarrow> nat option" where
  "hex_val u =
     (if 0x30 \<le> u \<and> u \<le> 0x39 then Some (unat u - 0x30)
      else if 0x41 \<le> u \<and> u \<le> 0x46 then Some (unat u - 0x37)
      else if 0x61 \<le> u \<and> u \<le> 0x66 then Some (unat u - 0x57)
      else None)"

definition hex4 :: "uchar \<Rightarrow> uchar \<Rightarrow> uchar \<Rightarrow> uchar \<Rightarrow> uchar option" where
  "hex4 a b c d =
     (case (hex_val a, hex_val b, hex_val c, hex_val d) of
        (Some x, Some y, Some z, Some w) \<Rightarrow> Some (of_nat (x * 4096 + y * 256 + z * 16 + w))
      | _ \<Rightarrow> None)"

definition simple_escape :: "uchar \<Rightarrow> uchar option" where
  "simple_escape e =
     (if e = 0x22 then Some (0x22)
      else if e = 0x5C then Some (0x5C)
      else if e = uc CHR ''/'' then Some (uc CHR ''/'')
      else if e = uc CHR ''b'' then Some 8
      else if e = uc CHR ''f'' then Some 12
      else if e = uc CHR ''n'' then Some 10
      else if e = uc CHR ''r'' then Some 13
      else if e = uc CHR ''t'' then Some 9
      else None)"

definition cons_result :: "uchar \<Rightarrow> (ustring \<times> ustring) option \<Rightarrow> (ustring \<times> ustring) option" where
  "cons_result u r = (case r of None \<Rightarrow> None | Some (s, rest) \<Rightarrow> Some (u # s, rest))"

fun parse_string_chars :: "ustring \<Rightarrow> (ustring \<times> ustring) option" where
  \<comment> \<open>The characters of a string after its opening quote, and the text after its closing
      quote.\<close>
  "parse_string_chars [] = None"
| "parse_string_chars (u # rest) =
     (if u = 0x22 then Some ([], rest)
      else if u = 0x5C then
        (case rest of
           [] \<Rightarrow> None
         | e # rest' \<Rightarrow>
             if e = uc CHR ''u'' then
               (case rest' of
                  a # b # c # d # rest'' \<Rightarrow>
                    (case hex4 a b c d of
                       None \<Rightarrow> None
                     | Some x \<Rightarrow> cons_result x (parse_string_chars rest''))
                | _ \<Rightarrow> None)
             else
               (case simple_escape e of
                  None \<Rightarrow> None
                | Some x \<Rightarrow> cons_result x (parse_string_chars rest')))
      else if u < 0x20 then None
      else cons_result u (parse_string_chars rest))"

definition parse_int_part :: "ustring \<Rightarrow> (int \<times> ustring) option" where
  \<comment> \<open>\<open>0\<close>, or a digit from 1 to 9 followed by digits.\<close>
  "parse_int_part s =
     (case s of
        [] \<Rightarrow> None
      | c # r \<Rightarrow>
          (case digit_val c of
             None \<Rightarrow> None
           | Some d \<Rightarrow>
               if d = 0 then Some (0, r)
               else (case take_digits s of (ds, r') \<Rightarrow> Some (int_of_digits ds, r'))))"

definition parse_frac_part :: "ustring \<Rightarrow> (real \<times> ustring) option" where
  "parse_frac_part s =
     (case s of
        [] \<Rightarrow> Some (0, s)
      | c # r \<Rightarrow>
          if c = uc CHR ''.'' then
            (case take_digits r of
               (ds, r') \<Rightarrow>
                 if ds = [] then None
                 else Some (of_int (int_of_digits ds) / 10 ^ length ds, r'))
          else Some (0, s))"

definition parse_exp_part :: "ustring \<Rightarrow> (int \<times> ustring) option" where
  "parse_exp_part s =
     (case s of
        [] \<Rightarrow> Some (0, s)
      | c # r \<Rightarrow>
          if c = uc CHR ''e'' \<or> c = uc CHR ''E'' then
            (let (neg, r1) =
               (case r of
                  [] \<Rightarrow> (False, r)
                | c1 # r' \<Rightarrow>
                    if c1 = uc CHR ''-'' then (True, r')
                    else if c1 = uc CHR ''+'' then (False, r') else (False, r))
             in case take_digits r1 of
                  (ds, r2) \<Rightarrow>
                    if ds = [] then None
                    else Some (if neg then - int_of_digits ds else int_of_digits ds, r2))
          else Some (0, s))"

definition parse_number :: "ustring \<Rightarrow> (real \<times> ustring) option" where
  \<comment> \<open>A number literal and the real it denotes.\<close>
  "parse_number s =
     (let (neg, s1) =
        (case s of
           [] \<Rightarrow> (False, s)
         | c # r \<Rightarrow> if c = uc CHR ''-'' then (True, r) else (False, s))
      in case parse_int_part s1 of
           None \<Rightarrow> None
         | Some (i, s2) \<Rightarrow>
             (case parse_frac_part s2 of
                None \<Rightarrow> None
              | Some (f, s3) \<Rightarrow>
                  (case parse_exp_part s3 of
                     None \<Rightarrow> None
                   | Some (e, s4) \<Rightarrow>
                       Some ((if neg then - 1 else 1) * (of_int i + f)
                             * (if 0 \<le> e then 10 ^ nat e else 1 / 10 ^ nat (- e)), s4))))"

definition number_value :: "real \<Rightarrow> js" where
  \<comment> \<open>The number value of a literal that denotes \<open>x\<close>: the nearest double, and an
      infinity when that is \<open>2 ^ 1024\<close> or more in absolute value.\<close>
  "number_value x =
     (let y = double_round x
      in if 1024 < bitlen \<lfloor>\<bar>y\<bar>\<rfloor> then JNonFinite (if 0 < x then PosInfinity else NegInfinity)
         else JNumber y)"

definition strip_prefix :: "ustring \<Rightarrow> ustring \<Rightarrow> ustring option" where
  "strip_prefix p s = (if take (length p) s = p then Some (drop (length p) s) else None)"

fun parse_value :: "nat \<Rightarrow> ustring \<Rightarrow> (js \<times> ustring) option"
  and parse_elements :: "nat \<Rightarrow> js list \<Rightarrow> ustring \<Rightarrow> (js list \<times> ustring) option"
  and parse_members ::
    "nat \<Rightarrow> (ustring \<times> js) list \<Rightarrow> ustring \<Rightarrow> ((ustring \<times> js) list \<times> ustring) option"
where
  "parse_value 0 s = None"
| "parse_value (Suc n) s =
     (case skip_ws s of
        [] \<Rightarrow> None
      | c # rest \<Rightarrow>
          if c = uc CHR ''{'' then
            (case skip_ws rest of
               [] \<Rightarrow> None
             | d # rest' \<Rightarrow>
                 if d = uc CHR ''}'' then Some (JObject [], rest')
                 else (case parse_members n [] (d # rest') of
                         None \<Rightarrow> None
                       | Some (kvs, r) \<Rightarrow> Some (JObject kvs, r)))
          else if c = uc CHR ''['' then
            (case skip_ws rest of
               [] \<Rightarrow> None
             | d # rest' \<Rightarrow>
                 if d = uc CHR '']'' then Some (JArray [], rest')
                 else (case parse_elements n [] (d # rest') of
                         None \<Rightarrow> None
                       | Some (xs, r) \<Rightarrow> Some (JArray xs, r)))
          else if c = 0x22 then
            (case parse_string_chars rest of
               None \<Rightarrow> None
             | Some (str, r) \<Rightarrow> Some (JString str, r))
          else if c = uc CHR ''n'' then
            (case strip_prefix (wide ''null'') (c # rest) of
               None \<Rightarrow> None
             | Some r \<Rightarrow> Some (JNull, r))
          else if c = uc CHR ''t'' then
            (case strip_prefix (wide ''true'') (c # rest) of
               None \<Rightarrow> None
             | Some r \<Rightarrow> Some (JBool True, r))
          else if c = uc CHR ''f'' then
            (case strip_prefix (wide ''false'') (c # rest) of
               None \<Rightarrow> None
             | Some r \<Rightarrow> Some (JBool False, r))
          else (case parse_number (c # rest) of
                  None \<Rightarrow> None
                | Some (x, r) \<Rightarrow> Some (number_value x, r)))"
| "parse_elements 0 acc s = None"
| "parse_elements (Suc n) acc s =
     (case parse_value n s of
        None \<Rightarrow> None
      | Some (v, r) \<Rightarrow>
          (case skip_ws r of
             [] \<Rightarrow> None
           | c # r' \<Rightarrow>
               if c = uc CHR '','' then parse_elements n (acc @ [v]) r'
               else if c = uc CHR '']'' then Some (acc @ [v], r')
               else None))"
| "parse_members 0 acc s = None"
| "parse_members (Suc n) acc s =
     (case skip_ws s of
        [] \<Rightarrow> None
      | c # r \<Rightarrow>
          if c \<noteq> 0x22 then None
          else
            (case parse_string_chars r of
               None \<Rightarrow> None
             | Some (k, r1) \<Rightarrow>
                 (case skip_ws r1 of
                    [] \<Rightarrow> None
                  | c1 # r2 \<Rightarrow>
                      if c1 \<noteq> uc CHR '':'' then None
                      else
                        (case parse_value n r2 of
                           None \<Rightarrow> None
                         | Some (v, r3) \<Rightarrow>
                             (case skip_ws r3 of
                                [] \<Rightarrow> None
                              | c3 # r4 \<Rightarrow>
                                  if c3 = uc CHR '','' then parse_members n (obj_set acc k v) r4
                                  else if c3 = uc CHR ''}'' then Some (obj_set acc k v, r4)
                                  else None)))))"

definition JSON_parse :: "ustring \<Rightarrow> js_error + js" where
  \<comment> \<open>One value between whitespace; anything else is a SyntaxError.  The recursion is
      bounded by the length of the text, which every call shortens.\<close>
  "JSON_parse s =
     (case parse_value (Suc (length s)) s of
        None \<Rightarrow> Inl SyntaxError
      | Some (v, rest) \<Rightarrow> if skip_ws rest = [] then Inr v else Inl SyntaxError)"

section \<open>The payload envelope\<close>

definition deserialize_payload :: "Date \<Rightarrow> ustring \<Rightarrow> js_error + js" where
  "deserialize_payload now payload =
     (case base64Decode payload of
        Inl e \<Rightarrow> Inl e
      | Inr pbytes \<Rightarrow>
          (case decrypt now pbytes of
             Inl e \<Rightarrow> Inl e
           | Inr raw \<Rightarrow> JSON_parse (TextDecoder_decode raw)))"


section \<open>The session\<close>








fun ToString :: "js \<Rightarrow> ustring"
  and ToString_elements :: "js list \<Rightarrow> ustring list"
where
  "ToString JUndefined = wide ''undefined''"
| "ToString JNull = wide ''null''"
| "ToString (JBool b) = wide (if b then ''true'' else ''false'')"
| "ToString (JNumber r) = number_to_string r"
| "ToString (JNonFinite x) =
     wide (case x of NaN \<Rightarrow> ''NaN'' | PosInfinity \<Rightarrow> ''Infinity'' | NegInfinity \<Rightarrow> ''-Infinity'')"
| "ToString (JBigInt i) = wide (js_String i)"
| "ToString (JString s) = s"
| "ToString (JArray xs) = join (wide '','') (ToString_elements xs)"
| "ToString (JObject kvs) = wide ''[object Object]''"
| "ToString_elements [] = []"
| "ToString_elements (x # xs) =
     (if x = JUndefined \<or> x = JNull then [] else ToString x) # ToString_elements xs"



section \<open>The exported functions\<close>














section \<open>Notions used in the statements and proofs\<close>

text \<open>
  The sextets that \<open>b64_encode\<close> writes, and the number of padding characters.
\<close>

fun sextets :: "nat list \<Rightarrow> nat list" where
  "sextets (a # b # c # rest) =
     (let n = a * 65536 + b * 256 + c
      in n div 262144 # n div 4096 mod 64 # n div 64 mod 64 # n mod 64 # sextets rest)"
| "sextets [a, b] =
     (let n = a * 65536 + b * 256 in [n div 262144, n div 4096 mod 64, n div 64 mod 64])"
| "sextets [a] = (let n = a * 65536 in [n div 262144, n div 4096 mod 64])"
| "sextets [] = []"

definition pad_count :: "nat list \<Rightarrow> nat" where
  "pad_count ns = (if length ns mod 3 = 0 then 0 else 3 - length ns mod 3)"

text \<open>
  Readings of the clock: a Friday morning and evening, a Saturday half a year later, and
  a Saturday of the year 999 (the calendar is the proleptic Gregorian one of the
  platform).
\<close>

definition date_2024_03_15 :: Date where
  "date_2024_03_15 = \<lparr>getDate = 15, getMonth = 2, getFullYear = 2024, getDay = 5,
                        getTime = 1710498600000\<rparr>"

definition date_2024_03_15_evening :: Date where
  "date_2024_03_15_evening = \<lparr>getDate = 15, getMonth = 2, getFullYear = 2024, getDay = 5,
                                getTime = 1710539100000\<rparr>"

definition date_2024_09_28 :: Date where
  "date_2024_09_28 = \<lparr>getDate = 28, getMonth = 8, getFullYear = 2024, getDay = 6,
                        getTime = 1727497800000\<rparr>"

definition date_0999_06_15 :: Date where
  "date_0999_06_15 = \<lparr>getDate = 15, getMonth = 5, getFullYear = 999, getDay = 6,
                        getTime = - 30627460800000\<rparr>"

text \<open>
  What AES-CBC decryption under the key of the day makes of a ciphertext, before the
  padding is taken off; and the padding rule of the Web Cryptography standard: the last
  byte \<open>p\<close> is between 1 and 16, and the last \<open>p\<close> bytes all have the value \<open>p\<close>.
\<close>

definition cbc_plaintext :: "Date \<Rightarrow> byte list \<Rightarrow> byte list" where
  "cbc_plaintext now c =
     bytes_of_blocks (cbc_decrypt (round_keys (CryptoKey (keyData now None)))
                        (hd (blocks_of_bytes IV)) (blocks_of_bytes c))"

definition valid_padding :: "byte list \<Rightarrow> bool" where
  "valid_padding bs \<longleftrightarrow>
     bs \<noteq> [] \<and>
     (let p = unat (last bs)
      in 1 \<le> p \<and> p \<le> 16 \<and> p \<le> length bs \<and> list_all (\<lambda>b. b = last bs) (drop (length bs - p) bs))"











section \<open>Decimal digits\<close>

lemma string_of_nat_1: "n < 10 \<Longrightarrow> string_of_nat n = [digit_char n]"
  by (simp add: string_of_nat.simps)

lemma string_of_nat_2:
  "10 \<le> n \<Longrightarrow> n < 100 \<Longrightarrow> string_of_nat n = [digit_char (n div 10), digit_char (n mod 10)]"
  by (subst string_of_nat.simps) (simp add: string_of_nat_1)

lemma string_of_nat_3:
  "100 \<le> n \<Longrightarrow> n < 1000 \<Longrightarrow>
   string_of_nat n = [digit_char (n div 100), digit_char (n div 10 mod 10), digit_char (n mod 10)]"
  by (subst string_of_nat.simps) (simp add: string_of_nat_2 div_mult2_eq [symmetric])

lemma string_of_nat_4:
  "1000 \<le> n \<Longrightarrow> n < 10000 \<Longrightarrow>
   string_of_nat n = [digit_char (n div 1000), digit_char (n div 100 mod 10),
                      digit_char (n div 10 mod 10), digit_char (n mod 10)]"
  by (subst string_of_nat.simps) (simp add: string_of_nat_3 div_mult2_eq [symmetric])

lemma digit_char_0: "digit_char 0 = CHR ''0''"
  by code_simp

lemma ascii_digit_char: "n < 10 \<Longrightarrow> (of_char (digit_char n) :: nat) < 128"
  by (simp add: digit_char_def)

lemma ascii_string_of_nat: "ascii (string_of_nat n)"
proof (induction n rule: string_of_nat.induct)
  case (1 n)
  show ?case
  proof (cases "n < 10")
    case True
    then show ?thesis by (simp add: string_of_nat_1 ascii_def ascii_digit_char)
  next
    case False
    then have "ascii (string_of_nat (n div 10))" using 1 by simp
    moreover have "string_of_nat n = string_of_nat (n div 10) @ [digit_char (n mod 10)]"
      using False by (subst string_of_nat.simps) simp
    ultimately show ?thesis by (simp add: ascii_def ascii_digit_char)
  qed
qed

lemma ascii_js_String: "ascii (js_String i)"
  using ascii_string_of_nat by (simp add: js_String_def ascii_def)

lemma mod_100_div_10: "(n::nat) mod 100 div 10 = n div 10 mod 10"
proof -
  have "n mod 100 = 10 * (n div 10 mod 10) + n mod 10"
    using mod_mult2_eq [of n 10 10] by simp
  then show ?thesis by simp
qed

section \<open>The date sequence\<close>

lemma padStart_day:
  "0 \<le> d \<Longrightarrow> d < 100 \<Longrightarrow> padStart 2 (CHR ''0'') (js_String d) = two_digits d"
proof (cases "d < 10")
  case True
  assume "0 \<le> d"
  with True have "nat d < 10" "nat (d mod 100) = nat d" by auto
  then show ?thesis
    using \<open>0 \<le> d\<close> by (simp add: padStart_def js_String_def two_digits_def string_of_nat_1 digit_char_0)
next
  case False
  assume "0 \<le> d" "d < 100"
  with False have "10 \<le> nat d" "nat d < 100" "nat (d mod 100) = nat d" by auto
  then show ?thesis
    using \<open>0 \<le> d\<close> by (simp add: padStart_def js_String_def two_digits_def string_of_nat_2)
qed

lemma slice_year:
  "1000 \<le> y \<Longrightarrow> y \<le> 9999 \<Longrightarrow> slice 2 (js_String y) = two_digits y"
proof -
  assume a: "1000 \<le> y" "y \<le> 9999"
  then have n: "1000 \<le> nat y" "nat y < 10000" by auto
  have "nat (y mod 100) = nat y mod 100" using a by (simp add: nat_mod_distrib)
  moreover have "nat y mod 100 div 10 = nat y div 10 mod 10" by (rule mod_100_div_10)
  moreover have "nat y mod 100 mod 10 = nat y mod 10" by (simp add: mod_mod_cancel)
  ultimately show ?thesis
    using a n by (simp add: slice_def js_String_def two_digits_def string_of_nat_4)
qed

lemma weekday_digit: "0 \<le> w \<Longrightarrow> w \<le> 6 \<Longrightarrow> js_String w = [digit_char (nat w)]"
  by (simp add: js_String_def string_of_nat_1)

lemma char_at_two_digits:
  "to_str (char_at (two_digits n) 0) = [two_digits n ! 0]"
  "to_str (char_at (two_digits n) 1) = [two_digits n ! 1]"
  by (simp_all add: two_digits_def char_at_def to_str_def)

lemma generate_date_seq_documented:
  assumes "valid_Date d" and "four_digit_year d"
  shows "generate_date_seq now (Some d) = documented_date_seq d"
proof -
  have "padStart 2 (CHR ''0'') (js_String (getDate d)) = two_digits (getDate d)"
    using assms by (intro padStart_day) (auto simp: valid_Date_def)
  moreover have "padStart 2 (CHR ''0'') (js_String (getMonth d + 1)) = two_digits (getMonth d + 1)"
    using assms by (intro padStart_day) (auto simp: valid_Date_def)
  moreover have "slice 2 (js_String (getFullYear d)) = two_digits (getFullYear d)"
    using assms by (intro slice_year) (auto simp: four_digit_year_def)
  moreover have "js_String (getDay d) = [digit_char (nat (getDay d))]"
    using assms by (intro weekday_digit) (auto simp: valid_Date_def)
  ultimately show ?thesis
    by (simp add: generate_date_seq_def documented_date_seq_def Let_def char_at_two_digits)
qed

lemma generate_date_seq_None: "generate_date_seq now None = generate_date_seq now (Some now)"
  by (simp add: generate_date_seq_def)

lemma generate_date_seq_Some: "generate_date_seq now (Some d) = generate_date_seq d (Some d)"
  by (simp add: generate_date_seq_def)

lemma to_str_char_at_cases:
  "(to_str (char_at s 0) = [s ! 0] \<and> to_str (char_at s 1) = [s ! 1]) \<or>
   (to_str (char_at s 0) = [s ! 0] \<and> to_str (char_at s 1) = ''undefined'') \<or>
   (to_str (char_at s 0) = ''undefined'' \<and> to_str (char_at s 1) = ''undefined'')"
  by (cases s; cases "tl s") (auto simp: char_at_def to_str_def)

lemma ascii_append: "ascii (a @ b) \<longleftrightarrow> ascii a \<and> ascii b"
  by (simp add: ascii_def)

lemma ascii_drop: "ascii s \<Longrightarrow> ascii (drop n s)"
  unfolding ascii_def list_all_iff by (meson in_set_dropD)

lemma ascii_nth: "ascii s \<Longrightarrow> i < length s \<Longrightarrow> ascii [s ! i]"
  by (simp add: ascii_def list_all_length)

lemma ascii_undefined: "ascii ''undefined''"
  by (simp add: ascii_def)

lemma ascii_to_str_char_at: "ascii s \<Longrightarrow> ascii (to_str (char_at s i))"
  using ascii_nth [of s "nat i"] by (auto simp: char_at_def to_str_def ascii_undefined)

lemma ascii_padStart: "ascii s \<Longrightarrow> ascii (padStart 2 (CHR ''0'') s)"
  by (auto simp: padStart_def ascii_def list_all_iff)

lemma ascii_generate_date_seq: "ascii (generate_date_seq now date)"
  by (simp add: generate_date_seq_def Let_def ascii_append ascii_to_str_char_at ascii_padStart
      ascii_js_String slice_def ascii_drop)

lemma length_generate_date_seq:
  assumes "valid_Date d"
  shows "length (generate_date_seq now (Some d)) \<in> {7, 15, 23}"
proof -
  have "padStart 2 (CHR ''0'') (js_String (getDate d)) = two_digits (getDate d)"
    using assms by (intro padStart_day) (auto simp: valid_Date_def)
  moreover have "padStart 2 (CHR ''0'') (js_String (getMonth d + 1)) = two_digits (getMonth d + 1)"
    using assms by (intro padStart_day) (auto simp: valid_Date_def)
  moreover have "js_String (getDay d) = [digit_char (nat (getDay d))]"
    using assms by (intro weekday_digit) (auto simp: valid_Date_def)
  ultimately show ?thesis
    using to_str_char_at_cases [of "slice 2 (js_String (getFullYear d))"]
    by (auto simp: generate_date_seq_def Let_def char_at_two_digits)
qed

section \<open>UTF-8 of ASCII text\<close>

lemma uc_ascii: "(of_char c :: nat) < 128 \<Longrightarrow> unat (uc c) = of_char c"
  by (simp add: uc_def unat_of_nat)

lemma not_surrogate_small: "unat u < 0xD800 \<Longrightarrow> \<not> is_high_surrogate u \<and> \<not> is_low_surrogate u"
  by (auto simp: is_high_surrogate_def is_low_surrogate_def word_le_nat_alt)

lemma code_points_ascii: "ascii s \<Longrightarrow> code_points (wide s) = map of_char s"
proof (induction s rule: induct_list012)
  case 1
  then show ?case by (simp add: wide_def)
next
  case (2 c)
  then have "(of_char c :: nat) < 128" by (simp add: ascii_def)
  then show ?case
    using not_surrogate_small [of "uc c"] by (simp add: wide_def scalar_of_unit_def uc_ascii)
next
  case (3 c d s)
  then have c: "(of_char c :: nat) < 128" and r: "ascii (d # s)" by (simp_all add: ascii_def)
  show ?case
    using not_surrogate_small [of "uc c"] c 3(2) [OF r]
    by (simp add: wide_def scalar_of_unit_def uc_ascii)
qed

lemma TextEncoder_encode_ascii:
  assumes "ascii s"
  shows "TextEncoder_encode (wide s) = map (\<lambda>c. of_nat (of_char c)) s"
proof -
  have "concat (map utf8_bytes (map of_char s)) = map of_char s"
    using assms by (induction s) (simp_all add: ascii_def utf8_bytes_def)
  then show ?thesis
    using assms by (simp add: TextEncoder_encode_def code_points_ascii)
qed

lemma length_encode_ascii: "ascii s \<Longrightarrow> length (TextEncoder_encode (wide s)) = length s"
  by (simp add: TextEncoder_encode_ascii)

section \<open>Key derivation\<close>

lemma length_keyData:
  "length (keyData now date) = 9 + length (generate_date_seq now date)"
proof -
  have "ascii (''qa8y'' @ generate_date_seq now date @ ''ty1pn'')"
    using ascii_generate_date_seq [of now date] by (simp add: ascii_def)
  then show ?thesis unfolding keyData_def by (simp add: length_encode_ascii)
qed

lemma generate_key_succeeds:
  assumes "valid_Date now"
  shows "generate_key now None = Inr (CryptoKey (keyData now None))"
  using length_generate_date_seq [OF assms, of now]
  by (auto simp: generate_key_def importKey_def length_keyData generate_date_seq_None)

lemma generate_key_same_day:
  "same_calendar_day a b \<Longrightarrow> generate_key a None = generate_key b None"
  by (simp add: same_calendar_day_def generate_key_def keyData_def generate_date_seq_def)

section \<open>The block cipher is invertible\<close>

lemma sbox_check:
  "map (\<lambda>x. inv_sbox_table ! unat x) sbox_table = map of_nat [0..<256]"
  by (simp add: sbox_table_def inv_sbox_table_def upt_conv_Cons)

lemma length_sbox_table: "length sbox_table = 256"
  by (simp add: sbox_table_def)

lemma inv_sbox_sbox: "inv_sbox (sbox b) = b"
proof -
  have b: "unat b < 256" using unsigned_less [of b, where ?'a = nat] by simp
  then have "map (\<lambda>x. inv_sbox_table ! unat x) sbox_table ! unat b = inv_sbox_table ! unat (sbox_table ! unat b)"
    by (simp add: length_sbox_table)
  moreover have "map of_nat [0..<256] ! unat b = (b :: byte)"
    using b by simp
  ultimately show ?thesis by (simp add: sbox_def inv_sbox_def sbox_check)
qed

lemma xtime_xor: "xtime (a XOR b) = xtime a XOR xtime b"
  by (cases "bit a 7"; cases "bit b 7") (simp_all add: xtime_def bit_xor_iff ac_simps)

lemma xor_cancel: "(a :: byte) XOR (a XOR b) = b"
  by (simp add: xor.assoc [symmetric])

lemma inv_mix_column_mix_column: "inv_mix_column (mix_column c) = c"
  by (cases c rule: rot_word.cases)
     (simp add: mul3_def mul9_def mul11_def mul13_def mul14_def xtime_xor
        xor.assoc xor.commute xor.left_commute xor_cancel)

lemma inv_shift_rows_shift_rows: "inv_shift_rows (shift_rows s) = s"
  by (cases s rule: shift_rows.cases) simp

lemma map_word_inv: "map_word inv_sbox (map_word sbox w) = w"
  by (cases w rule: rot_word.cases) (simp add: inv_sbox_sbox)

lemma inv_sub_bytes_sub_bytes: "inv_sub_bytes (sub_bytes s) = s"
  by (cases s rule: sub_bytes.cases) (simp add: map_word_inv)

lemma inv_mix_columns_mix_columns: "inv_mix_columns (mix_columns s) = s"
  by (cases s rule: mix_columns.cases) (simp add: inv_mix_column_mix_column)

lemma xor_word_cancel: "xor_word (xor_word w k) k = w"
  by (cases w rule: rot_word.cases; cases k rule: rot_word.cases) (simp add: xor.assoc)

lemma add_round_key_cancel: "add_round_key k (add_round_key k s) = s"
  by (cases s rule: sub_bytes.cases; cases k rule: sub_bytes.cases) (simp add: xor_word_cancel)

lemma inv_rounds_rounds: "inv_rounds ks (rounds ks s) = s"
  by (induction ks s rule: rounds.induct)
     (simp_all add: add_round_key_cancel inv_shift_rows_shift_rows inv_sub_bytes_sub_bytes
        inv_mix_columns_mix_columns)

lemma inv_cipher_cipher: "inv_cipher ks (cipher ks s) = s"
  by (cases ks) (simp_all add: inv_rounds_rounds add_round_key_cancel)

section \<open>Cipher block chaining and padding\<close>

lemma cbc_decrypt_encrypt: "cbc_decrypt ks prev (cbc_encrypt ks prev ps) = ps"
  by (induction ps arbitrary: prev) (simp_all add: Let_def inv_cipher_cipher add_round_key_cancel)

lemma length_cbc_encrypt: "length (cbc_encrypt ks prev ps) = length ps"
  by (induction ps arbitrary: prev) (simp_all add: Let_def)

lemma list_of_length_16:
  assumes "length bs = 16"
  shows "\<exists>s. bs = bytes_of_state s"
proof -
  obtain a0 a1 a2 a3 b0 b1 b2 b3 c0 c1 c2 c3 d0 d1 d2 d3
    where "bs = [a0, a1, a2, a3, b0, b1, b2, b3, c0, c1, c2, c3, d0, d1, d2, d3]"
    using assms by (auto simp: numeral_eq_Suc length_Suc_conv)
  then have "bs = bytes_of_state ((a0, a1, a2, a3), (b0, b1, b2, b3), (c0, c1, c2, c3), (d0, d1, d2, d3))"
    by simp
  then show ?thesis by blast
qed

lemma bytes_of_blocks_Cons: "bytes_of_blocks (s # ss) = bytes_of_state s @ bytes_of_blocks ss"
  by (simp add: bytes_of_blocks_def)

lemma list_of_blocks: "length bs = 16 * n \<Longrightarrow> \<exists>ss. bs = bytes_of_blocks ss"
proof (induction n arbitrary: bs)
  case 0
  then have "bs = bytes_of_blocks []" by (simp add: bytes_of_blocks_def)
  then show ?case by blast
next
  case (Suc n)
  then have "length (take 16 bs) = 16" and "length (drop 16 bs) = 16 * n" by simp_all
  then obtain s ss where "take 16 bs = bytes_of_state s" and "drop 16 bs = bytes_of_blocks ss"
    using list_of_length_16 Suc.IH by blast
  then have "bs = bytes_of_blocks (s # ss)"
    using append_take_drop_id [of 16 bs] by (simp add: bytes_of_blocks_Cons)
  then show ?case by blast
qed

lemma blocks_of_bytes_Cons:
  "blocks_of_bytes (bytes_of_state s @ rest) = s # blocks_of_bytes rest"
  by (cases s rule: shift_rows.cases) (simp add: blocks_of_bytes_def)

lemma blocks_of_bytes_of_blocks: "blocks_of_bytes (bytes_of_blocks ss) = ss"
proof (induction ss)
  case Nil
  then show ?case by (simp add: bytes_of_blocks_def blocks_of_bytes_def)
next
  case (Cons s ss)
  then show ?case
    using blocks_of_bytes_Cons [of s "bytes_of_blocks ss"] by (simp add: bytes_of_blocks_def)
qed

lemma bytes_of_blocks_of_bytes:
  assumes "length bs mod 16 = 0"
  shows "bytes_of_blocks (blocks_of_bytes bs) = bs"
proof -
  from assms have "length bs = 16 * (length bs div 16)" by presburger
  then obtain ss where "bs = bytes_of_blocks ss" using list_of_blocks by blast
  then show ?thesis by (simp add: blocks_of_bytes_of_blocks)
qed

lemma length_bytes_of_state: "length (bytes_of_state s) = 16"
  by (cases s rule: shift_rows.cases) simp

lemma length_bytes_of_blocks: "length (bytes_of_blocks ss) = 16 * length ss"
  by (induction ss) (simp_all add: bytes_of_blocks_def length_bytes_of_state)

lemma length_blocks_of_bytes:
  "length bs mod 16 = 0 \<Longrightarrow> 16 * length (blocks_of_bytes bs) = length bs"
  using length_bytes_of_blocks [of "blocks_of_bytes bs"] by (simp add: bytes_of_blocks_of_bytes)

lemma length_pkcs7_pad: "length (pkcs7_pad data) mod 16 = 0"
proof -
  have "(length data + (16 - length data mod 16)) mod 16 = 0" by presburger
  then show ?thesis by (simp add: pkcs7_pad_def Let_def)
qed

lemma pkcs7_unpad_pad: "pkcs7_unpad (pkcs7_pad data) = Inr data"
proof -
  define n where "n = 16 - length data mod 16"
  have n: "0 < n" "n \<le> 16" unfolding n_def by simp_all
  have pad: "pkcs7_pad data = data @ replicate n (of_nat n)"
    by (simp add: pkcs7_pad_def n_def Let_def)
  have last: "last (pkcs7_pad data) = (of_nat n :: byte)"
    using n by (simp add: pad)
  have un: "unat (of_nat n :: byte) = n"
    using n by (simp add: unat_of_nat)
  show ?thesis
    unfolding pkcs7_unpad_def last un Let_def using n by (simp add: pad)
qed

lemma pkcs7_pad_nonempty: "pkcs7_pad data \<noteq> []"
  by (simp add: pkcs7_pad_def Let_def)

lemma length_IV: "length IV = 16"
  by (simp add: IV_def length_encode_ascii ascii_def)

lemma subtle_roundtrip:
  assumes "length iv = 16"
  shows "\<exists>c. subtle_encrypt iv key data = Inr c \<and> subtle_decrypt iv key c = Inr data"
proof -
  define ps where "ps = blocks_of_bytes (pkcs7_pad data)"
  define c where "c = bytes_of_blocks (cbc_encrypt (round_keys key) (hd (blocks_of_bytes iv)) ps)"
  have enc: "subtle_encrypt iv key data = Inr c"
    using assms by (simp add: subtle_encrypt_def c_def ps_def)
  have "16 * length ps = length (pkcs7_pad data)"
    unfolding ps_def by (rule length_blocks_of_bytes) (rule length_pkcs7_pad)
  then have "ps \<noteq> []" using pkcs7_pad_nonempty [of data] by auto
  then have len: "length c \<noteq> 0" "length c mod 16 = 0"
    by (simp_all add: c_def length_bytes_of_blocks length_cbc_encrypt)
  have "bytes_of_blocks (cbc_decrypt (round_keys key) (hd (blocks_of_bytes iv)) (blocks_of_bytes c))
      = pkcs7_pad data"
    by (simp add: c_def blocks_of_bytes_of_blocks cbc_decrypt_encrypt ps_def
        bytes_of_blocks_of_bytes length_pkcs7_pad)
  then have "subtle_decrypt iv key c = Inr data"
    using assms len by (simp add: subtle_decrypt_def pkcs7_unpad_pad)
  with enc show ?thesis by blast
qed

lemma encrypt_decrypt_roundtrip:
  assumes "valid_Date t1" and "same_calendar_day t1 t2"
  shows "\<exists>c. encrypt t1 p = Inr c \<and> decrypt t2 c = Inr p"
proof -
  have k1: "generate_key t1 None = Inr (CryptoKey (keyData t1 None))"
    using assms(1) by (rule generate_key_succeeds)
  then have k2: "generate_key t2 None = Inr (CryptoKey (keyData t1 None))"
    using generate_key_same_day [OF assms(2)] by simp
  show ?thesis
    using subtle_roundtrip [OF length_IV] by (simp add: encrypt_def decrypt_def k1 k2)
qed

section \<open>Base64 round trip\<close>

lemma sextet_join:
  "(n::nat) div 262144 * 262144 + n div 4096 mod 64 * 4096 + n div 64 mod 64 * 64 + n mod 64 = n"
proof -
  define x y z where "x = n div 64" and "y = n div 4096" and "z = n div 262144"
  have "y = x div 64" unfolding x_def y_def by (simp add: div_mult2_eq [symmetric])
  moreover have "z = y div 64" unfolding y_def z_def by (simp add: div_mult2_eq [symmetric])
  ultimately have "x = 64 * y + x mod 64" "y = 64 * z + y mod 64" by simp_all
  moreover have "n = 64 * x + n mod 64" unfolding x_def by simp
  ultimately show ?thesis unfolding x_def [symmetric] y_def [symmetric] z_def [symmetric]
    by linarith
qed

lemma split3:
  assumes "b < 256" and "c < (256::nat)"
  shows "(a * 65536 + b * 256 + c) div 65536 = a"
    and "(a * 65536 + b * 256 + c) div 256 mod 256 = b"
    and "(a * 65536 + b * 256 + c) mod 256 = c"
proof -
  have "b * 256 + c < 65536" using assms by linarith
  then show "(a * 65536 + b * 256 + c) div 65536 = a"
    by (simp add: add.assoc)
  have "(a * 65536 + b * 256 + c) div 256 = a * 256 + b"
    using assms by (simp add: add.assoc)
  then show "(a * 65536 + b * 256 + c) div 256 mod 256 = b"
    using assms by simp
  have e: "a * 65536 + b * 256 + c = c + (a * 256 + b) * 256" by simp
  have "(c + (a * 256 + b) * 256) mod 256 = c mod 256" by (rule mod_mult_self1)
  then have "(a * 65536 + b * 256 + c) mod 256 = c mod 256" unfolding e [symmetric] .
  then show "(a * 65536 + b * 256 + c) mod 256 = c" using assms by simp
qed

lemma b64_char_mod: "b64_char (i mod 64) = b64_char i"
  by (simp add: b64_char_def)

lemma b64_encode_sextets:
  "b64_encode ns = map b64_char (sextets ns) @ replicate (pad_count ns) (CHR ''='')"
proof (induction ns rule: b64_encode.induct)
  case (1 a b c rest)
  have "pad_count (a # b # c # rest) = pad_count rest" by (simp add: pad_count_def)
  with 1 show ?case by (simp add: Let_def b64_char_mod)
next
  case (2 a b)
  show ?case by (simp add: pad_count_def Let_def b64_char_mod)
next
  case (3 a)
  have "replicate 2 (CHR ''='') = ''==''" by (simp add: numeral_2_eq_2)
  then show ?case by (simp add: pad_count_def Let_def b64_char_mod)
next
  case 4
  show ?case by (simp add: pad_count_def)
qed

lemma b64_decode_sextets: "list_all (\<lambda>n. n < 256) ns \<Longrightarrow> b64_decode (sextets ns) = ns"
proof (induction ns rule: b64_encode.induct)
  case (1 a b c rest)
  then have bounds: "b < 256" "c < 256" and rest: "list_all (\<lambda>n. n < 256) rest"
    by simp_all
  define n where "n = a * 65536 + b * 256 + c"
  have "n div 65536 = a" "n div 256 mod 256 = b" "n mod 256 = c"
    unfolding n_def using split3 [OF bounds] by simp_all
  then show ?case
    using 1(1) [OF refl rest] sextet_join [of n] by (simp add: Let_def flip: n_def)
next
  case (2 a b)
  then have bounds: "b < 256" "(0::nat) < 256" by simp_all
  define n where "n = a * 65536 + b * 256"
  have "n = (a * 1024 + b * 4) * 64" unfolding n_def by simp
  then have "n mod 64 = 0" by simp
  then have "n div 262144 * 262144 + n div 4096 mod 64 * 4096 + n div 64 mod 64 * 64 = n"
    using sextet_join [of n] by simp
  moreover have "n div 65536 = a" "n div 256 mod 256 = b"
    unfolding n_def using split3 [OF bounds, of a] by simp_all
  ultimately show ?case by (simp add: Let_def flip: n_def)
next
  case (3 a)
  define n where "n = a * 65536"
  have "n = a * 1024 * 64" "n div 64 = a * 16 * 64" unfolding n_def by simp_all
  then have "n mod 64 = 0" "n div 64 mod 64 = 0" by simp_all
  then have "n div 262144 * 262144 + n div 4096 mod 64 * 4096 = n"
    using sextet_join [of n] by simp
  moreover have "n div 65536 = a" unfolding n_def by simp
  ultimately show ?case by (simp add: Let_def flip: n_def)
next
  case 4
  show ?case by simp
qed

lemma sextets_bound:
  "list_all (\<lambda>n. n < 256) ns \<Longrightarrow> list_all (\<lambda>i. i < 64) (sextets ns)"
proof (induction ns rule: b64_encode.induct)
  case (1 a b c rest)
  then have "a * 65536 + b * 256 + c < 64 * 262144" by simp
  then have "(a * 65536 + b * 256 + c) div 262144 < 64" by (rule less_mult_imp_div_less)
  with 1 show ?case by (simp add: Let_def)
next
  case (2 a b)
  then have "a * 65536 + b * 256 < 64 * 262144" by simp
  then have "(a * 65536 + b * 256) div 262144 < 64" by (rule less_mult_imp_div_less)
  then show ?case by (simp add: Let_def)
next
  case (3 a)
  then have "a * 65536 < 64 * 262144" by simp
  then have "a * 65536 div 262144 < 64" by (rule less_mult_imp_div_less)
  then show ?case by (simp add: Let_def)
next
  case 4
  show ?case by simp
qed

lemma pad_count_cases:
  "(pad_count ns = 0 \<and> length (sextets ns) mod 4 = 0) \<or>
   (pad_count ns = 1 \<and> length (sextets ns) mod 4 = 3) \<or>
   (pad_count ns = 2 \<and> length (sextets ns) mod 4 = 2)"
proof (induction ns rule: b64_encode.induct)
  case (1 a b c rest)
  have "pad_count (a # b # c # rest) = pad_count rest" by (simp add: pad_count_def)
  with 1 show ?case by (simp add: Let_def)
qed (simp_all add: pad_count_def Let_def)

lemma b64_index_table:
  "map (\<lambda>i. b64_index (uc (b64_char i))) [0..<64] = map Some [0..<64]"
  by (simp add: b64_index_def uc_def b64_char_def b64_alphabet_def upt_conv_Cons)

lemma b64_index_char: "i < 64 \<Longrightarrow> b64_index (uc (b64_char i)) = Some i"
proof -
  assume "i < 64"
  then have "i \<in> set [0..<64]" by simp
  then show ?thesis using b64_index_table by (metis (no_types, lifting) map_eq_conv)
qed

lemma b64_index_not_pad: "b64_index c = Some i \<Longrightarrow> c \<noteq> 61 \<and> \<not> is_ascii_whitespace c"
  by (auto simp: b64_index_def is_ascii_whitespace_def Let_def split: if_splits)

lemma those_map_Some: "list_all (\<lambda>x. f x = Some (g x)) xs \<Longrightarrow> those (map f xs) = Some (map g xs)"
  by (induction xs) simp_all

lemma strip_padding_body:
  assumes "list_all (\<lambda>c. c \<noteq> (61 :: uchar)) chars"
    and "(k = 0 \<and> length chars mod 4 = 0) \<or> (k = 1 \<and> length chars mod 4 = 3)
         \<or> (k = 2 \<and> length chars mod 4 = 2)"
  shows "strip_padding (chars @ replicate k 61) = chars"
proof -
  consider "k = 0" "length chars mod 4 = 0" | "k = 1" "length chars mod 4 = 3"
    | "k = 2" "length chars mod 4 = 2"
    using assms(2) by auto
  then show ?thesis
  proof cases
    case 1
    show ?thesis
    proof (cases chars rule: rev_cases)
      case Nil
      then show ?thesis using 1 by (simp add: strip_padding_def)
    next
      case (snoc ys x)
      then have "x \<noteq> 61" using assms(1) by simp
      then show ?thesis using 1 unfolding snoc by (simp add: strip_padding_def split: list.splits)
    qed
  next
    case 2
    then have "chars \<noteq> []" by auto
    then obtain ys x where c: "chars = ys @ [x]" by (metis rev_exhaust)
    then have x: "x \<noteq> 61" using assms(1) by simp
    have "(length ys + 2) mod 4 = 0" using 2 c by simp presburger
    then show ?thesis using 2(1) x unfolding c by (simp add: strip_padding_def)
  next
    case 3
    have "(length chars + 2) mod 4 = 0" using 3 by presburger
    moreover have "replicate 2 (61 :: uchar) = [61, 61]" by (simp add: numeral_2_eq_2)
    ultimately show ?thesis using 3 by (simp add: strip_padding_def)
  qed
qed

lemma unat_byte_mod: "unat (b :: byte) mod 256 = unat b"
  using unsigned_less [of b, where ?'a = nat] by simp

lemma of_char_char_of_unat: "(of_char (char_of (unat (b :: byte))) :: nat) = unat b"
proof -
  have "unat b < 256" using unsigned_less [of b, where ?'a = nat] by simp
  then show ?thesis by simp
qed

lemma atob_btoa:
  assumes "list_all (\<lambda>n. n < 256) ns"
  shows "atob (wide (b64_encode ns)) = Inr (map char_of ns)"
proof -
  define chars where "chars = map (\<lambda>i. uc (b64_char i)) (sextets ns)"
  have idx: "list_all (\<lambda>c. b64_index c = Some (the (b64_index c))) chars"
    using sextets_bound [OF assms] by (simp add: chars_def list_all_iff b64_index_char)
  have index: "list_all (\<lambda>i. b64_index (uc (b64_char i)) = Some i) (sextets ns)"
    using sextets_bound [OF assms] by (simp add: list_all_iff b64_index_char)
  then have clean: "list_all (\<lambda>c. c \<noteq> 61) chars" "filter (\<lambda>c. \<not> is_ascii_whitespace c) chars = chars"
    unfolding chars_def list_all_iff using b64_index_not_pad by (auto simp: filter_id_conv)
  have "uc (CHR ''='') = 61" by (simp add: uc_def)
  then have w: "wide (b64_encode ns) = chars @ replicate (pad_count ns) 61"
    by (simp add: b64_encode_sextets wide_def chars_def)
  have "\<not> is_ascii_whitespace 61" by (simp add: is_ascii_whitespace_def)
  then have f: "filter (\<lambda>c. \<not> is_ascii_whitespace c) (wide (b64_encode ns))
      = chars @ replicate (pad_count ns) 61"
    using clean(2) by (simp add: w)
  have s: "strip_padding (chars @ replicate (pad_count ns) 61) = chars"
    using clean(1) pad_count_cases [of ns] by (intro strip_padding_body) (simp_all add: chars_def)
  have l: "length chars mod 4 \<noteq> 1"
    using pad_count_cases [of ns] by (auto simp: chars_def)
  have t: "those (map b64_index chars) = Some (sextets ns)"
    unfolding chars_def map_map o_def using those_map_Some [OF index, of ] by simp
  show ?thesis
    unfolding atob_def f s Let_def using l t by (simp add: b64_decode_sextets [OF assms])
qed

lemma base64_roundtrip: "base64Decode (wide (base64Encode bs)) = Inr bs"
proof -
  have b: "list_all (\<lambda>n. n < 256) (map unat bs)"
    using unsigned_less [where ?'a = nat and ?'b = 8] by (simp add: list_all_iff)
  have "map of_char (String_fromCharCode bs) = map unat bs"
    by (simp add: String_fromCharCode_def o_def unat_byte_mod)
  then have "atob (wide (base64Encode bs)) = Inr (map char_of (map unat bs))"
    using atob_btoa [OF b] by (simp add: base64Encode_def btoa_def)
  then show ?thesis
    by (simp add: base64Decode_def o_def unat_byte_mod)
qed


section \<open>The local name and the failure of decryption\<close>

lemma pow2_powr: "pow2 k = 2 powr real_of_int k"
proof (cases "0 \<le> k")
  case True
  then show ?thesis by (simp add: pow2_def powr_realpow [symmetric])
next
  case False
  have "(2::real) ^ nat (- k) = 2 powr real (nat (- k))"
    by (simp add: powr_realpow)
  also have "real (nat (- k)) = - real_of_int k" using False by simp
  finally have "pow2 k = 1 / 2 powr (- real_of_int k)" using False by (simp add: pow2_def)
  then show ?thesis by (simp add: powr_minus_divide)
qed

lemma pow2_pos: "0 < pow2 k"
  by (simp add: pow2_powr)

lemma pow2_mono: "k \<le> l \<Longrightarrow> pow2 k \<le> pow2 l"
  by (simp add: pow2_powr)

lemma bitlen_pos: "0 < x \<Longrightarrow> 0 < bitlen x"
  using bitlen_le_iff_power [of x 0] by (simp add: not_le [symmetric])

lemma binade_le:
  assumes "0 < x" and "x < 64"
  shows "binade x \<le> 5"
proof (cases "1 \<le> x")
  case True
  have "\<lfloor>x\<rfloor> < 2 ^ nat 6" using assms(2) by (simp add: floor_less_iff)
  then have "bitlen \<lfloor>x\<rfloor> \<le> 6" by (simp add: bitlen_le_iff_power)
  then show ?thesis using True by (simp add: binade_def)
next
  case False
  then have "1 < 1 / x" using assms(1) by simp
  then have "0 < \<lfloor>1 / x\<rfloor>" by (simp add: less_floor_iff)
  then have "0 < bitlen \<lfloor>1 / x\<rfloor>" by (rule bitlen_pos)
  then show ?thesis using False by (simp add: binade_def Let_def)
qed

lemma round_half_even_bounds:
  "real_of_int (round_half_even q) \<le> q + 1 / 2" "0 \<le> q \<Longrightarrow> 0 \<le> round_half_even q"
proof -
  have f: "real_of_int \<lfloor>q\<rfloor> \<le> q" by simp
  show "real_of_int (round_half_even q) \<le> q + 1 / 2"
  proof (cases "q - real_of_int \<lfloor>q\<rfloor> < 1 / 2")
    case True
    then have r: "round_half_even q = \<lfloor>q\<rfloor>"
      by (simp add: round_half_even_def Let_def)
    show ?thesis unfolding r using f by linarith
  next
    case False
    then have "round_half_even q = \<lfloor>q\<rfloor> \<or> round_half_even q = \<lfloor>q\<rfloor> + 1"
      by (simp add: round_half_even_def Let_def)
    then consider "round_half_even q = \<lfloor>q\<rfloor>" | "round_half_even q = \<lfloor>q\<rfloor> + 1"
      by blast
    then show ?thesis
    proof cases
      case 1
      show ?thesis unfolding 1 using f by linarith
    next
      case 2
      show ?thesis unfolding 2 using False by simp
    qed
  qed
  show "0 \<le> round_half_even q" if "0 \<le> q"
  proof -
    have "0 \<le> \<lfloor>q\<rfloor>" using that by simp
    then show ?thesis by (auto simp: round_half_even_def Let_def)
  qed
qed

lemma double_round_bounds:
  assumes "0 \<le> x" and "x < 64"
  shows "0 \<le> double_round x" and "double_round x \<le> x + 1 / 2 ^ 48"
proof -
  show "0 \<le> double_round x"
  proof (cases "x = 0")
    case False
    then have "0 < x" using assms(1) by simp
    then show ?thesis
      using round_half_even_bounds(2) [of "x / pow2 (max (binade x) (- 1022) - 52)"]
        pow2_pos [of "max (binade x) (- 1022) - 52"]
      by (simp add: double_round_def Let_def)
  qed (simp add: double_round_def)
  show "double_round x \<le> x + 1 / 2 ^ 48"
  proof (cases "x = 0")
    case False
    then have x: "0 < x" using assms(1) by simp
    define u where "u = pow2 (max (binade x) (- 1022) - 52)"
    have "max (binade x) (- 1022) - 52 \<le> - 47"
      using binade_le [OF x assms(2)] by simp
    then have "u \<le> pow2 (- 47)" unfolding u_def by (rule pow2_mono)
    then have u: "u \<le> 1 / 2 ^ 47" by (simp add: pow2_def)
    have up: "0 < u" unfolding u_def by (rule pow2_pos)
    have "real_of_int (round_half_even (x / u)) \<le> x / u + 1 / 2"
      by (rule round_half_even_bounds)
    then have "real_of_int (round_half_even (x / u)) * u \<le> (x / u + 1 / 2) * u"
      using up by (simp only: mult_le_cancel_right_pos)
    also have "\<dots> = x + u / 2" using up by (simp add: field_simps)
    also have "\<dots> \<le> x + 1 / 2 ^ 48" using u by simp
    finally show ?thesis using x by (simp add: double_round_def Let_def u_def)
  qed (simp add: double_round_def)
qed

lemma binade_half:
  assumes "1 / 2 \<le> x" and "x < 1"
  shows "binade x = - 1"
proof (cases "x = 1 / 2")
  case True
  have "binade (1 / 2) = - 1" by code_simp
  then show ?thesis unfolding True .
next
  case False
  then have "1 / x < 2" "1 < 1 / x" using assms by (simp_all add: field_simps)
  then have fl: "\<lfloor>1 / x\<rfloor> = 1" by (simp add: floor_eq_iff)
  have b: "bitlen 1 = 1" by code_simp
  show ?thesis using assms(2) by (simp add: binade_def fl b Let_def)
qed

lemma double_below_one:
  assumes "0 \<le> r" and "r < 1" and "double_round r = r"
  shows "r \<le> 1 - 1 / 2 ^ 53"
proof (cases "1 / 2 \<le> r")
  case True
  define n where "n = round_half_even (r / pow2 (- 53))"
  have "binade r = - 1" using True assms(2) by (rule binade_half)
  then have "double_round r = of_int n * pow2 (- 53)"
    using True by (simp add: double_round_def Let_def n_def)
  then have r: "r = of_int n / 2 ^ 53" using assms(3) by (simp add: pow2_def)
  then have "real_of_int n < 2 ^ 53" using assms(2) by (simp add: field_simps)
  then have "real_of_int n < real_of_int (2 ^ 53)" by simp
  then have "n < 2 ^ 53" by (simp only: of_int_less_iff)
  then have "n \<le> 2 ^ 53 - 1" by simp
  then have "real_of_int n \<le> real_of_int (2 ^ 53 - 1)" by (simp only: of_int_le_iff)
  then have "real_of_int n \<le> 2 ^ 53 - 1" by simp
  then show ?thesis unfolding r by (simp add: field_simps)
next
  case False
  then show ?thesis by simp
qed




lemma Math_random_valid: "valid_rng g \<Longrightarrow> valid_rng (snd (Math_random g))"
  by (simp add: valid_rng_def Math_random_def)

lemma length_charset: "length charset = 62"
  by (simp add: charset_def)

lemma random_index_range:
  assumes "is_double r" and "0 \<le> r" and "r < 1"
  shows "0 \<le> \<lfloor>double_times r 62\<rfloor>" and "\<lfloor>double_times r 62\<rfloor> < 62"
proof -
  have "r \<le> 1 - 1 / 2 ^ 53"
    using assms by (intro double_below_one) (simp_all add: is_double_def)
  then have x: "r * 62 \<le> 62 - 62 / 2 ^ 53" by simp
  have "0 \<le> r * 62" using assms(2) by simp
  moreover have "r * 62 < 64" using x by simp
  ultimately have b: "0 \<le> double_round (r * 62)" "double_round (r * 62) \<le> r * 62 + 1 / 2 ^ 48"
    by (rule double_round_bounds)+
  show "0 \<le> \<lfloor>double_times r 62\<rfloor>" using b(1) by (simp add: double_times_def)
  have "double_round (r * 62) < 62" using b(2) x by simp
  then show "\<lfloor>double_times r 62\<rfloor> < 62" by (simp add: double_times_def floor_less_iff)
qed

lemma random_index:
  assumes "valid_rng g"
  shows "\<exists>c. to_str (char_at charset \<lfloor>double_times (fst (Math_random g)) (real (length charset))\<rfloor>)
                = [c]
             \<and> c \<in> set charset"
proof -
  define r where "r = fst (Math_random g)"
  have "is_double r" "0 \<le> r" "r < 1"
    using assms by (simp_all add: r_def Math_random_def valid_rng_def)
  then have i: "0 \<le> \<lfloor>double_times r 62\<rfloor>" "\<lfloor>double_times r 62\<rfloor> < 62"
    by (rule random_index_range)+
  then have "nat \<lfloor>double_times r 62\<rfloor> < length charset"
    unfolding length_charset by linarith
  then have m: "charset ! nat \<lfloor>double_times r 62\<rfloor> \<in> set charset" by (rule nth_mem)
  have "to_str (char_at charset \<lfloor>double_times r (real (length charset))\<rfloor>)
      = [charset ! nat \<lfloor>double_times r 62\<rfloor>]"
    using i by (simp add: char_at_def to_str_def length_charset)
  with m show ?thesis unfolding r_def by blast
qed

lemma random_chars_valid:
  assumes "valid_rng g"
  shows "\<exists>cs. fst (random_chars k acc g) = acc @ cs
              \<and> length cs = k \<and> set cs \<subseteq> set charset \<and> valid_rng (snd (random_chars k acc g))"
  using assms
proof (induction k arbitrary: acc g)
  case 0
  then show ?case by simp
next
  case (Suc k)
  obtain c where c:
      "to_str (char_at charset \<lfloor>double_times (fst (Math_random g)) (real (length charset))\<rfloor>) = [c]"
      "c \<in> set charset"
    using random_index [OF Suc.prems] by blast
  obtain cs where cs: "fst (random_chars k (acc @ [c]) (snd (Math_random g))) = (acc @ [c]) @ cs"
      "length cs = k" "set cs \<subseteq> set charset"
      "valid_rng (snd (random_chars k (acc @ [c]) (snd (Math_random g))))"
    using Suc.IH [OF Math_random_valid [OF Suc.prems], of "acc @ [c]"] by blast
  have step: "random_chars (Suc k) acc g = random_chars k (acc @ [c]) (snd (Math_random g))"
    using c(1) by (simp add: split_def Let_def)
  show ?case
    unfolding step using cs c(2) by (intro exI [of _ "c # cs"]) simp
qed

lemma local_name_text_valid:
  assumes "valid_rng g"
  shows "\<exists>r4 r5. fst (local_name_text now g date) = r4 @ generate_date_seq now date @ r5
            \<and> length r4 = 4 \<and> length r5 = 5 \<and> set r4 \<subseteq> set charset \<and> set r5 \<subseteq> set charset"
proof -
  obtain r4 where r4: "fst (random_chars 4 [] g) = [] @ r4"
      "length r4 = 4" "set r4 \<subseteq> set charset" "valid_rng (snd (random_chars 4 [] g))"
    using random_chars_valid [OF assms, of 4 "[]"] by blast
  obtain r5 where r5: "fst (random_chars 5 [] (snd (random_chars 4 [] g))) = [] @ r5"
      "length r5 = 5" "set r5 \<subseteq> set charset"
    using random_chars_valid [OF r4(4), of 5 "[]"] by blast
  have "fst (local_name_text now g date) = r4 @ generate_date_seq now date @ r5"
    using r4(1) r5(1) by (simp add: local_name_text_def get_random_char_seq_def split_def Let_def)
  then show ?thesis using r4 r5 by blast
qed

lemma local_name_decrypts:
  assumes "valid_Date now'" and "same_calendar_day now' now''"
  shows "\<exists>c. fst (generate_local_name now now' g date) = Inr (base64Encode c)
           \<and> subtle_encrypt IV (CryptoKey (keyData now' None))
                 (TextEncoder_encode (wide (fst (local_name_text now g date)))) = Inr c
           \<and> base64Decode (wide (base64Encode c)) = Inr c
           \<and> decrypt now'' c = Inr (TextEncoder_encode (wide (fst (local_name_text now g date))))"
proof -
  define nameBytes where "nameBytes = TextEncoder_encode (wide (fst (local_name_text now g date)))"
  obtain c where c: "encrypt now' nameBytes = Inr c" "decrypt now'' c = Inr nameBytes"
    using encrypt_decrypt_roundtrip [OF assms] by blast
  have "generate_key now' None = Inr (CryptoKey (keyData now' None))"
    using assms(1) by (rule generate_key_succeeds)
  then have "subtle_encrypt IV (CryptoKey (keyData now' None)) nameBytes = Inr c"
    using c(1) by (simp add: encrypt_def)
  moreover have "fst (generate_local_name now now' g date) = Inr (base64Encode c)"
    using c(1) by (simp add: generate_local_name_def split_def Let_def flip: nameBytes_def)
  ultimately show ?thesis
    using c(2) base64_roundtrip [of c] unfolding nameBytes_def by blast
qed

lemma pkcs7_unpad_invalid: "\<not> valid_padding bs \<Longrightarrow> pkcs7_unpad bs = Inl OperationError"
proof (cases "bs = []")
  case True
  then show ?thesis by (simp add: pkcs7_unpad_def)
next
  case False
  assume inv: "\<not> valid_padding bs"
  define p where "p = unat (last bs)"
  have "replicate p (last bs) = drop (length bs - p) bs \<Longrightarrow> p \<le> length bs
      \<Longrightarrow> list_all (\<lambda>b. b = last bs) (drop (length bs - p) bs)"
    by (metis (mono_tags, lifting) in_set_replicate list_all_iff)
  then show ?thesis
    using inv False unfolding valid_padding_def pkcs7_unpad_def Let_def p_def [symmetric]
    by (auto simp: not_le)
qed

lemma decrypt_rejects:
  assumes "valid_Date now"
    and "length c mod 16 \<noteq> 0 \<or> c = [] \<or> \<not> valid_padding (cbc_plaintext now c)"
  shows "decrypt now c = Inl OperationError"
proof -
  have k: "generate_key now None = Inr (CryptoKey (keyData now None))"
    using assms(1) by (rule generate_key_succeeds)
  show ?thesis
    using assms(2) pkcs7_unpad_invalid [of "cbc_plaintext now c"]
    by (auto simp: decrypt_def k subtle_decrypt_def length_IV cbc_plaintext_def)
qed


section \<open>The session and the exported functions\<close>

lemma bind_result_Inl [simp]: "bind_result (Inl e) f = Inl e"
  by (simp add: bind_result_def)

lemma bind_result_Inr [simp]: "bind_result (Inr x) f = f x"
  by (simp add: bind_result_def)

lemma bind_result_fails: "r = Inl e \<Longrightarrow> bind_result r f = Inl e"
  by simp

lemma get_prop_nullish:
  "get_prop v k = Inl e \<longleftrightarrow> e = TypeError \<and> (v = JUndefined \<or> v = JNull)"
  by (cases v) (auto simp: get_prop_def)





lemma get_index0_defined: "get_index0 v = Inr x \<Longrightarrow> v \<noteq> JUndefined \<and> v \<noteq> JNull"
  by (cases v) (simp_all add: get_index0_def)





section \<open>Evaluation at concrete inputs\<close>

text \<open>
  The local name built on 15 March 2024 for 28 September 2024, with \<^verbatim>\<open>Math.random()\<close>
  returning 0.5 throughout: its text, its ciphertext under the key of 15 March, and what
  decryption under the key of 28 September makes of that ciphertext.
\<close>

lemma funpow_numeral_step: "(f ^^ numeral n) x = (f ^^ pred_numeral n) (f x)"
  by (simp add: numeral_eq_Suc funpow_swap1)

lemma replicate_numeral_step: "replicate (numeral n) x = x # replicate (pred_numeral n) x"
  by (simp add: numeral_eq_Suc)

lemmas aes_eval = replicate_numeral_step funpow_numeral_step
  round_keys_def key_expansion_def next_key_word_def rcon_def
  sbox_def sbox_table_def inv_sbox_def inv_sbox_table_def
  xtime_def mul3_def mul9_def mul11_def mul13_def mul14_def Let_def
  blocks_of_bytes_def bytes_of_blocks_def pkcs7_pad_def pkcs7_unpad_def

lemma valid_date_2024_03_15: "valid_Date date_2024_03_15" "four_digit_year date_2024_03_15"
  by (simp_all add: valid_Date_def four_digit_year_def date_2024_03_15_def)

lemma valid_date_2024_09_28: "valid_Date date_2024_09_28" "four_digit_year date_2024_09_28"
  by (simp_all add: valid_Date_def four_digit_year_def date_2024_09_28_def)

lemma same_day_2024_03_15: "same_calendar_day date_2024_03_15 date_2024_03_15_evening"
  by (simp add: same_calendar_day_def date_2024_03_15_def date_2024_03_15_evening_def)

lemma date_seq_2024_03_15: "generate_date_seq date_2024_03_15 None = ''1025534''"
  unfolding date_2024_03_15_def by code_simp

lemma date_seq_2024_09_28: "generate_date_seq date_2024_09_28 None = ''2026894''"
  unfolding date_2024_09_28_def by code_simp

lemma documented_2024_03_15: "documented_date_seq date_2024_03_15 = ''1025534''"
  unfolding date_2024_03_15_def by code_simp

lemma keyData_2024_03_15:
  "keyData date_2024_03_15 None =
     [113, 97, 56, 121, 49, 48, 50, 53, 53, 51, 52, 116, 121, 49, 112, 110]"
  unfolding keyData_def date_seq_2024_03_15 by code_simp

lemma keyData_2024_09_28:
  "keyData date_2024_09_28 None =
     [113, 97, 56, 121, 50, 48, 50, 54, 56, 57, 52, 116, 121, 49, 112, 110]"
  unfolding keyData_def date_seq_2024_09_28 by code_simp

lemma IV_bytes: "IV = [100, 99, 101, 107, 57, 119, 98, 56, 102, 114, 116, 121, 49, 112, 110, 109]"
  by code_simp

lemma half_double: "is_double (1 / 2)" "double_times (1 / 2) 62 = 31"
  by code_simp+

lemma valid_rng_half: "valid_rng (\<lambda>i. 1 / 2)"
  using half_double(1) by (simp add: valid_rng_def)

lemma random_chars_half:
  "fst (random_chars 4 [] (\<lambda>i. 1 / 2)) = ''vvvv''"
  "snd (random_chars 4 [] (\<lambda>i. 1 / 2)) = (\<lambda>i. 1 / 2)"
  "fst (random_chars 5 [] (\<lambda>i. 1 / 2)) = ''vvvvv''"
  by (simp_all add: numeral_eq_Suc Math_random_def half_double(2) length_charset)
     (simp_all add: charset_def char_at_def to_str_def)

lemma local_name_text_half:
  "fst (local_name_text now (\<lambda>i. 1 / 2) (Some date_2024_09_28)) = ''vvvv2026894vvvvv''"
  using date_seq_2024_09_28
  by (simp add: local_name_text_def get_random_char_seq_def split_def random_chars_half
      generate_date_seq_None generate_date_seq_Some [of now])

lemma encode_local_name_text:
  "TextEncoder_encode (wide ''vvvv2026894vvvvv'') =
     [118, 118, 118, 118, 50, 48, 50, 54, 56, 57, 52, 118, 118, 118, 118, 118]"
  by (simp add: TextEncoder_encode_ascii ascii_def)

lemma encrypt_2024_03_15:
  "subtle_encrypt IV (CryptoKey (keyData date_2024_03_15 None))
     [118, 118, 118, 118, 50, 48, 50, 54, 56, 57, 52, 118, 118, 118, 118, 118] =
   Inr [80, 186, 6, 14, 192, 160, 174, 234, 212, 113, 126, 119, 77, 55, 34, 24,
       248, 112, 57, 169, 221, 139, 121, 43, 91, 250, 213, 222, 155, 123, 29, 62]"
  unfolding IV_bytes keyData_2024_03_15 by (simp add: subtle_encrypt_def aes_eval)

lemma decrypt_2024_09_28:
  "subtle_decrypt IV (CryptoKey (keyData date_2024_09_28 None))
     [80, 186, 6, 14, 192, 160, 174, 234, 212, 113, 126, 119, 77, 55, 34, 24,
       248, 112, 57, 169, 221, 139, 121, 43, 91, 250, 213, 222, 155, 123, 29, 62] =
   Inr [176, 29, 22, 88, 237, 227, 154, 173, 236, 78, 235, 142, 131, 224, 40, 177,
       231, 182, 152, 248, 125, 251, 15, 147, 208, 208, 47, 93, 122, 45, 223]"
  unfolding IV_bytes keyData_2024_09_28 by (simp add: subtle_decrypt_def aes_eval)

lemma base64_local_name:
  "base64Encode
     [80, 186, 6, 14, 192, 160, 174, 234, 212, 113, 126, 119, 77, 55, 34, 24,
       248, 112, 57, 169, 221, 139, 121, 43, 91, 250, 213, 222, 155, 123, 29, 62] =
   ''ULoGDsCgrurUcX53TTciGPhwOandi3krW/rV3pt7HT4=''"
  by code_simp

lemma local_name_2024_03_15:
  "fst (generate_local_name now date_2024_03_15 (\<lambda>i. 1 / 2) (Some date_2024_09_28))
     = Inr ''ULoGDsCgrurUcX53TTciGPhwOandi3krW/rV3pt7HT4=''"
  using generate_key_succeeds [OF valid_date_2024_03_15(1)]
  by (simp add: generate_local_name_def split_def local_name_text_half encode_local_name_text
      encrypt_def encrypt_2024_03_15 base64_local_name)

text \<open>
  Outside the four-digit years the date sequence is longer: \<^verbatim>\<open>slice(2)\<close> leaves one digit
  of the year 999, and the missing second one is written as the text "undefined".
\<close>

lemma generate_date_seq_year_999:
  "generate_date_seq now (Some date_0999_06_15) = ''109656undefined''"
  unfolding generate_date_seq_Some [of now] date_0999_06_15_def by code_simp

lemma keyData_inj:
  "keyData a None = keyData b None \<Longrightarrow> generate_date_seq a None = generate_date_seq b None"
proof -
  have i: "inj (\<lambda>c. (of_nat (of_char c) :: byte))"
  proof (rule injI)
    fix x y :: char
    assume "(of_nat (of_char x) :: byte) = of_nat (of_char y)"
    then have "unat (of_nat (of_char x) :: byte) = unat (of_nat (of_char y) :: byte)" by simp
    then show "x = y" by (simp add: unat_of_nat)
  qed
  have a: "ascii (''qa8y'' @ generate_date_seq t None @ ''ty1pn'')" for t
    using ascii_generate_date_seq [of t None] by (simp add: ascii_def)
  assume "keyData a None = keyData b None"
  then have "map (\<lambda>c. (of_nat (of_char c) :: byte)) (''qa8y'' @ generate_date_seq a None @ ''ty1pn'')
      = map (\<lambda>c. of_nat (of_char c)) (''qa8y'' @ generate_date_seq b None @ ''ty1pn'')"
    by (simp only: keyData_def TextEncoder_encode_ascii [OF a])
  then have "''qa8y'' @ generate_date_seq a None @ ''ty1pn''
      = ''qa8y'' @ generate_date_seq b None @ ''ty1pn''"
    using i by (simp only: inj_map_eq_map)
  then show ?thesis by simp
qed

lemma ascii_charset: "set s \<subseteq> set charset \<Longrightarrow> ascii s"
proof -
  have "ascii charset" by (simp add: ascii_def charset_def)
  then show "set s \<subseteq> set charset \<Longrightarrow> ascii s"
    unfolding ascii_def list_all_iff by blast
qed


section \<open>The claims\<close>

subsection \<open>The cipher\<close>

text \<open>
  C1.  For every plaintext \<open>p\<close>: when \<^verbatim>\<open>encrypt\<close> and \<^verbatim>\<open>decrypt\<close> read the clock on the same
  calendar day, \<^verbatim>\<open>encrypt\<close> succeeds and \<^verbatim>\<open>decrypt\<close> returns exactly \<open>p\<close> on its result.
\<close>

theorem decrypt_encrypt_same_day:
  assumes "valid_Date t1" and "same_calendar_day t1 t2"
  shows "\<exists>c. encrypt t1 p = Inr c \<and> decrypt t2 c = Inr p"
proof -
  have k1: "generate_key t1 None = Inr (CryptoKey (keyData t1 None))"
    using assms(1) by (rule generate_key_succeeds)
  have "keyData t2 None = keyData t1 None"
    using assms(2) by (simp add: same_calendar_day_def keyData_def generate_date_seq_def)
  then have k2: "generate_key t2 None = Inr (CryptoKey (keyData t1 None))"
    using k1 by (simp add: generate_key_def)
  obtain c where "subtle_encrypt IV (CryptoKey (keyData t1 None)) p = Inr c"
    and "subtle_decrypt IV (CryptoKey (keyData t1 None)) c = Inr p"
    using subtle_roundtrip [OF length_IV] by blast
  then have "encrypt t1 p = Inr c \<and> decrypt t2 c = Inr p"
    by (simp add: encrypt_def decrypt_def k1 k2)
  then show ?thesis by blast
qed

theorem decrypt_encrypt_same_day_witness:
  "valid_Date date_2024_03_15 \<and> same_calendar_day date_2024_03_15 date_2024_03_15_evening \<and>
   getTime date_2024_03_15 \<noteq> getTime date_2024_03_15_evening \<and>
   (\<exists>c. encrypt date_2024_03_15 [104, 105] = Inr c \<and> decrypt date_2024_03_15_evening c = Inr [104, 105])"
proof -
  have v: "valid_Date date_2024_03_15"
    by (simp add: valid_Date_def date_2024_03_15_def)
  have s: "same_calendar_day date_2024_03_15 date_2024_03_15_evening"
    by (simp add: same_calendar_day_def date_2024_03_15_def date_2024_03_15_evening_def)
  have "getTime date_2024_03_15 \<noteq> getTime date_2024_03_15_evening"
    by (simp add: date_2024_03_15_def date_2024_03_15_evening_def)
  then show ?thesis
    using v s decrypt_encrypt_same_day [OF v s, of "[104, 105]"] by blast
qed

text \<open>
  C7.  For every ciphertext whose length is not a multiple of 16, or whose padding after
  decryption under the key of the day is invalid, \<^verbatim>\<open>decrypt\<close> fails with the OperationError
  of the cipher (the DecryptionError of the specification); this failure, and any other
  failure of \<^verbatim>\<open>decrypt\<close>, is the result of \<^verbatim>\<open>deserialize_payload\<close> on a payload that
  decodes to this ciphertext: neither function catches it.
\<close>

theorem decrypt_failure_propagates:
  assumes "valid_Date now"
    and "length c mod 16 \<noteq> 0 \<or> c = [] \<or> \<not> valid_padding (cbc_plaintext now c)"
    and "base64Decode payload = Inr c"
  shows "decrypt now c = Inl OperationError
       \<and> deserialize_payload now payload = Inl OperationError
       \<and> (\<forall>e. decrypt now c = Inl e \<longrightarrow> deserialize_payload now payload = Inl e)"
proof -
  have "decrypt now c = Inl OperationError"
    using assms(1, 2) by (rule decrypt_rejects)
  moreover have "deserialize_payload now payload = Inl e" if "decrypt now c = Inl e" for e
    using that assms(3) by (simp add: deserialize_payload_def)
  ultimately show ?thesis by blast
qed

theorem decrypt_failure_propagates_witness:
  "valid_Date date_2024_03_15 \<and> length [1, 2, 3, 4, 5 :: byte] mod 16 \<noteq> 0 \<and>
   base64Decode (wide (base64Encode [1, 2, 3, 4, 5])) = Inr [1, 2, 3, 4, 5] \<and>
   decrypt date_2024_03_15 [1, 2, 3, 4, 5] = Inl OperationError \<and>
   deserialize_payload date_2024_03_15 (wide (base64Encode [1, 2, 3, 4, 5])) = Inl OperationError"
proof -
  have v: "valid_Date date_2024_03_15"
    by (simp add: valid_Date_def date_2024_03_15_def)
  have l: "length [1, 2, 3, 4, 5 :: byte] mod 16 \<noteq> 0 \<or> [1, 2, 3, 4, 5 :: byte] = []
      \<or> \<not> valid_padding (cbc_plaintext date_2024_03_15 [1, 2, 3, 4, 5])"
    by simp
  have b: "base64Decode (wide (base64Encode [1, 2, 3, 4, 5])) = Inr [1, 2, 3, 4, 5]"
    by (rule base64_roundtrip)
  show ?thesis
    using v b decrypt_failure_propagates [OF v l b] by simp
qed

subsection \<open>The date sequence and the key\<close>

text \<open>
  C2.  For every calendar date \<open>d\<close> of the specification, a valid date whose year has four
  digits, \<^verbatim>\<open>generate_date_seq\<close> returns the seven characters \<open>D[0] M[0] Y[0] W D[1] M[1] Y[1]\<close>
  of its documentation: \<open>D\<close> the day and \<open>M\<close> the month counted from 1, both in two
  digits, \<open>Y\<close> the last two digits of the year and \<open>W\<close> the weekday.  The result is a function
  of the calendar day alone: the reading \<open>now\<close> of the clock does not enter when \<open>d\<close> is
  passed, the result is the same when no date is passed and the clock reads \<open>d\<close>, and two
  dates on one calendar day have one sequence.  For 15 March 2024, a Friday, the sequence
  is 1025534 (see the instance below).
\<close>

theorem generate_date_seq_seven_characters:
  assumes "valid_Date d" and "four_digit_year d"
  shows "generate_date_seq now (Some d) = documented_date_seq d
       \<and> generate_date_seq d None = documented_date_seq d
       \<and> length (generate_date_seq now (Some d)) = 7
       \<and> (\<forall>d' t. same_calendar_day d d' \<longrightarrow>
             generate_date_seq t (Some d') = generate_date_seq now (Some d))"
proof -
  have s: "generate_date_seq t (Some d) = documented_date_seq d" for t
    using assms by (rule generate_date_seq_documented)
  have "generate_date_seq d None = documented_date_seq d"
    using s [of d] by (simp add: generate_date_seq_None)
  moreover have "length (documented_date_seq d) = 7"
    by (simp add: documented_date_seq_def Let_def)
  moreover have "generate_date_seq t (Some d') = generate_date_seq now (Some d)"
    if "same_calendar_day d d'" for d' t
    using that by (simp add: same_calendar_day_def generate_date_seq_def)
  ultimately show ?thesis using s [of now] by simp
qed

theorem generate_date_seq_seven_characters_witness:
  "valid_Date date_2024_03_15 \<and> four_digit_year date_2024_03_15
   \<and> getDay date_2024_03_15 = 5
   \<and> generate_date_seq date_2024_09_28 (Some date_2024_03_15) = ''1025534''
   \<and> generate_date_seq date_2024_03_15 None = ''1025534''
   \<and> generate_date_seq date_2024_09_28 (Some date_2024_03_15_evening) = ''1025534''"
proof -
  have "getDay date_2024_03_15 = 5" by (simp add: date_2024_03_15_def)
  then show ?thesis
    using generate_date_seq_seven_characters [OF valid_date_2024_03_15, of date_2024_09_28]
      valid_date_2024_03_15 same_day_2024_03_15 documented_2024_03_15
    by simp
qed

text \<open>
  C5.  For every calendar date \<open>d\<close> of the specification, passed to \<^verbatim>\<open>generate_key\<close> or read
  by it from the clock, the key material consists of the 16 bytes of \<open>qa8y\<close>, the date
  sequence of \<open>d\<close> and \<open>ty1pn\<close>; \<^verbatim>\<open>importKey\<close> accepts it, so that \<^verbatim>\<open>generate_key\<close> returns the
  key and does not fail.
\<close>

theorem key_material_sixteen_bytes:
  assumes "valid_Date d" and "four_digit_year d"
  shows "keyData now (Some d)
           = map (\<lambda>c. of_nat (of_char c)) (''qa8y'' @ documented_date_seq d @ ''ty1pn'')
       \<and> length (keyData now (Some d)) = 16
       \<and> generate_key now (Some d) = Inr (CryptoKey (keyData now (Some d)))
       \<and> keyData d None = keyData now (Some d)
       \<and> generate_key d None = Inr (CryptoKey (keyData d None))"
proof -
  have s: "generate_date_seq now (Some d) = documented_date_seq d"
    using assms by (rule generate_date_seq_documented)
  have l: "length (documented_date_seq d) = 7"
    by (simp add: documented_date_seq_def Let_def)
  have "ascii (''qa8y'' @ generate_date_seq now (Some d) @ ''ty1pn'')"
    using ascii_generate_date_seq [of now "Some d"] by (simp add: ascii_def)
  then have k: "keyData now (Some d)
      = map (\<lambda>c. of_nat (of_char c)) (''qa8y'' @ documented_date_seq d @ ''ty1pn'')"
    unfolding keyData_def s [symmetric] by (rule TextEncoder_encode_ascii)
  then have n: "length (keyData now (Some d)) = 16" using l by simp
  have e: "keyData d None = keyData now (Some d)"
    by (simp add: keyData_def generate_date_seq_def)
  have "generate_key now (Some d) = Inr (CryptoKey (keyData now (Some d)))"
    using n by (simp add: generate_key_def importKey_def)
  moreover have "generate_key d None = Inr (CryptoKey (keyData d None))"
    using n by (simp add: generate_key_def importKey_def e)
  ultimately show ?thesis using k n e by simp
qed

theorem key_material_sixteen_bytes_witness:
  "valid_Date date_2024_03_15 \<and> four_digit_year date_2024_03_15
   \<and> keyData date_2024_09_28 (Some date_2024_03_15)
       = [113, 97, 56, 121, 49, 48, 50, 53, 53, 51, 52, 116, 121, 49, 112, 110]
   \<and> generate_key date_2024_09_28 (Some date_2024_03_15)
       = Inr (CryptoKey (keyData date_2024_09_28 (Some date_2024_03_15)))
   \<and> generate_key date_2024_03_15 None = Inr (CryptoKey (keyData date_2024_03_15 None))"
  using key_material_sixteen_bytes [OF valid_date_2024_03_15, of date_2024_09_28]
    valid_date_2024_03_15 keyData_2024_03_15
  by simp

subsection \<open>The local name\<close>

text \<open>
  C3.  For every calendar date \<open>d\<close> of the specification and every run of \<^verbatim>\<open>Math.random()\<close>:
  the value that \<^verbatim>\<open>generate_local_name(d)\<close> returns is the base64 form of a ciphertext
  which \<^verbatim>\<open>decrypt\<close>, on the calendar day of the call, turns into the bytes of the text that
  the function has built.  That text has 16 characters: four characters of the
  62-character alphabet, then the seven characters of the date sequence of \<open>d\<close> (the
  characters 5 to 11), then five characters of the alphabet.
\<close>

theorem local_name_plaintext:
  assumes "valid_rng g" and "valid_Date d" and "four_digit_year d"
    and "valid_Date now'" and "same_calendar_day now' now''"
  shows "\<exists>c r4 r5.
           fst (generate_local_name now now' g (Some d)) = Inr (base64Encode c)
         \<and> base64Decode (wide (base64Encode c)) = Inr c
         \<and> decrypt now'' c = Inr (TextEncoder_encode (wide (fst (local_name_text now g (Some d)))))
         \<and> fst (local_name_text now g (Some d)) = r4 @ generate_date_seq now (Some d) @ r5
         \<and> length (fst (local_name_text now g (Some d))) = 16
         \<and> length (TextEncoder_encode (wide (fst (local_name_text now g (Some d))))) = 16
         \<and> take 7 (drop 4 (fst (local_name_text now g (Some d)))) = generate_date_seq now (Some d)
         \<and> generate_date_seq now (Some d) = documented_date_seq d
         \<and> length r4 = 4 \<and> set r4 \<subseteq> set charset
         \<and> length r5 = 5 \<and> set r5 \<subseteq> set charset
         \<and> length charset = 62"
proof -
  obtain r4 r5 where t: "fst (local_name_text now g (Some d)) = r4 @ generate_date_seq now (Some d) @ r5"
      and r: "length r4 = 4" "length r5 = 5" "set r4 \<subseteq> set charset" "set r5 \<subseteq> set charset"
    using local_name_text_valid [OF assms(1), of now "Some d"] by blast
  obtain c where c: "fst (generate_local_name now now' g (Some d)) = Inr (base64Encode c)"
      "base64Decode (wide (base64Encode c)) = Inr c"
      "decrypt now'' c = Inr (TextEncoder_encode (wide (fst (local_name_text now g (Some d)))))"
    using local_name_decrypts [OF assms(4, 5), of now g "Some d"] by blast
  have s: "generate_date_seq now (Some d) = documented_date_seq d"
    using assms(2, 3) by (rule generate_date_seq_documented)
  have l: "length (generate_date_seq now (Some d)) = 7"
    unfolding s by (simp add: documented_date_seq_def Let_def)
  have n: "length (fst (local_name_text now g (Some d))) = 16"
    unfolding t using r l by simp
  have a: "ascii (fst (local_name_text now g (Some d)))"
    unfolding t using r(3, 4) ascii_generate_date_seq [of now "Some d"]
    by (simp add: ascii_append ascii_charset)
  have b: "length (TextEncoder_encode (wide (fst (local_name_text now g (Some d))))) = 16"
    using a n by (simp add: length_encode_ascii)
  have m: "take 7 (drop 4 (fst (local_name_text now g (Some d)))) = generate_date_seq now (Some d)"
    unfolding t using r(1) l by simp
  show ?thesis
    using c t r s n b m length_charset by blast
qed

theorem local_name_plaintext_witness:
  "valid_rng (\<lambda>i. 1 / 2) \<and> valid_Date date_2024_09_28 \<and> four_digit_year date_2024_09_28
   \<and> valid_Date date_2024_03_15 \<and> same_calendar_day date_2024_03_15 date_2024_03_15_evening
   \<and> fst (local_name_text date_2024_03_15 (\<lambda>i. 1 / 2) (Some date_2024_09_28)) = ''vvvv2026894vvvvv''
   \<and> (\<exists>c. fst (generate_local_name date_2024_03_15 date_2024_03_15 (\<lambda>i. 1 / 2)
                  (Some date_2024_09_28)) = Inr (base64Encode c)
          \<and> base64Decode (wide (base64Encode c)) = Inr c
          \<and> decrypt date_2024_03_15_evening c = Inr (TextEncoder_encode (wide ''vvvv2026894vvvvv'')))"
  using local_name_plaintext [OF valid_rng_half valid_date_2024_09_28 valid_date_2024_03_15(1)
      same_day_2024_03_15, of date_2024_03_15]
    valid_rng_half valid_date_2024_09_28 valid_date_2024_03_15(1) same_day_2024_03_15
  unfolding local_name_text_half by blast

text \<open>
  C10, as the code has it.  A date \<open>d\<close> given to \<^verbatim>\<open>generate_local_name\<close> enters the text
  only, as its date sequence between the random characters.  The ciphertext is the
  AES-CBC encryption of that text under the key of \<open>now'\<close>, the reading of the clock in
  \<^verbatim>\<open>encrypt\<close>: the bytes of \<open>qa8y\<close>, the date sequence of \<open>now'\<close> and \<open>ty1pn\<close>, whatever \<open>d\<close> is.
  \<^verbatim>\<open>decrypt\<close> returns the text on the calendar day of \<open>now'\<close>.  On a day with another date
  sequence \<^verbatim>\<open>decrypt\<close> derives another key; what it then makes of the ciphertext is not
  determined by this (see the instance after the next).
\<close>

theorem local_name_key_of_call_day:
  assumes "valid_Date now'" and "same_calendar_day now' now''"
  shows "\<exists>c. fst (generate_local_name now now' g (Some d)) = Inr (base64Encode c)
           \<and> fst (local_name_text now g (Some d))
               = fst (get_random_char_seq 4 g) @ generate_date_seq d None
                   @ fst (get_random_char_seq 5 (snd (get_random_char_seq 4 g)))
           \<and> subtle_encrypt IV
                 (CryptoKey (TextEncoder_encode
                    (wide (''qa8y'' @ generate_date_seq now' None @ ''ty1pn''))))
                 (TextEncoder_encode (wide (fst (local_name_text now g (Some d))))) = Inr c
           \<and> base64Decode (wide (base64Encode c)) = Inr c
           \<and> decrypt now'' c = Inr (TextEncoder_encode (wide (fst (local_name_text now g (Some d)))))
           \<and> (\<forall>t. generate_date_seq t None \<noteq> generate_date_seq now' None \<longrightarrow>
                 generate_key t None \<noteq> generate_key now' None)"
proof -
  obtain c where c: "fst (generate_local_name now now' g (Some d)) = Inr (base64Encode c)"
      "subtle_encrypt IV (CryptoKey (keyData now' None))
         (TextEncoder_encode (wide (fst (local_name_text now g (Some d))))) = Inr c"
      "base64Decode (wide (base64Encode c)) = Inr c"
      "decrypt now'' c = Inr (TextEncoder_encode (wide (fst (local_name_text now g (Some d)))))"
    using local_name_decrypts [OF assms, of now g "Some d"] by blast
  have t: "fst (local_name_text now g (Some d))
      = fst (get_random_char_seq 4 g) @ generate_date_seq d None
          @ fst (get_random_char_seq 5 (snd (get_random_char_seq 4 g)))"
    using generate_date_seq_Some [of now d] generate_date_seq_None [of d]
    by (simp add: local_name_text_def split_def Let_def)
  have k: "generate_key now' None = Inr (CryptoKey (keyData now' None))"
    using assms(1) by (rule generate_key_succeeds)
  have "generate_key t None \<noteq> generate_key now' None"
    if "generate_date_seq t None \<noteq> generate_date_seq now' None" for t
  proof
    assume "generate_key t None = generate_key now' None"
    then have "importKey (keyData t None) = Inr (CryptoKey (keyData now' None))"
      using k by (simp add: generate_key_def)
    then have "keyData t None = keyData now' None"
      by (simp add: importKey_def split: if_splits)
    then show False using that keyData_inj by blast
  qed
  then show ?thesis
    using c t unfolding keyData_def by blast
qed

theorem local_name_key_of_call_day_witness:
  "valid_Date date_2024_03_15 \<and> same_calendar_day date_2024_03_15 date_2024_03_15_evening
   \<and> fst (generate_local_name date_2024_09_28 date_2024_03_15 (\<lambda>i. 1 / 2) (Some date_2024_09_28))
       = Inr ''ULoGDsCgrurUcX53TTciGPhwOandi3krW/rV3pt7HT4=''
   \<and> (\<exists>c. base64Encode c = ''ULoGDsCgrurUcX53TTciGPhwOandi3krW/rV3pt7HT4=''
          \<and> decrypt date_2024_03_15_evening c = Inr (TextEncoder_encode (wide ''vvvv2026894vvvvv'')))
   \<and> generate_date_seq date_2024_09_28 None \<noteq> generate_date_seq date_2024_03_15 None
   \<and> generate_key date_2024_09_28 None \<noteq> generate_key date_2024_03_15 None"
proof -
  have n: "generate_date_seq date_2024_09_28 None \<noteq> generate_date_seq date_2024_03_15 None"
    by (simp add: date_seq_2024_09_28 date_seq_2024_03_15)
  show ?thesis
    using local_name_key_of_call_day [OF valid_date_2024_03_15(1) same_day_2024_03_15,
        of date_2024_09_28 "\<lambda>i. 1 / 2" date_2024_09_28]
      valid_date_2024_03_15(1) same_day_2024_03_15 n
    unfolding local_name_text_half local_name_2024_03_15 by auto
qed

text \<open>
  C10 as stated fails: a local name does not decrypt under the key of the day of the
  call only.  The name built on 15 March 2024 for 28 September 2024 is a ciphertext of 32
  bytes; on 28 September \<^verbatim>\<open>decrypt\<close> derives another key and does not fail on it: the last
  byte of what AES-CBC returns is 1, a valid padding, and \<^verbatim>\<open>decrypt\<close> returns the 31 bytes
  before it, which are not the text.
\<close>

theorem local_name_other_day_key:
  "fst (generate_local_name date_2024_03_15 date_2024_03_15 (\<lambda>i. 1 / 2) (Some date_2024_09_28))
     = Inr ''ULoGDsCgrurUcX53TTciGPhwOandi3krW/rV3pt7HT4=''
   \<and> base64Decode (wide ''ULoGDsCgrurUcX53TTciGPhwOandi3krW/rV3pt7HT4='')
     = Inr [80, 186, 6, 14, 192, 160, 174, 234, 212, 113, 126, 119, 77, 55, 34, 24,
           248, 112, 57, 169, 221, 139, 121, 43, 91, 250, 213, 222, 155, 123, 29, 62]
   \<and> keyData date_2024_09_28 None \<noteq> keyData date_2024_03_15 None
   \<and> decrypt date_2024_09_28
       [80, 186, 6, 14, 192, 160, 174, 234, 212, 113, 126, 119, 77, 55, 34, 24,
           248, 112, 57, 169, 221, 139, 121, 43, 91, 250, 213, 222, 155, 123, 29, 62]
     = Inr [176, 29, 22, 88, 237, 227, 154, 173, 236, 78, 235, 142, 131, 224, 40, 177,
           231, 182, 152, 248, 125, 251, 15, 147, 208, 208, 47, 93, 122, 45, 223]"
proof -
  have "base64Decode (wide ''ULoGDsCgrurUcX53TTciGPhwOandi3krW/rV3pt7HT4='')
      = Inr [80, 186, 6, 14, 192, 160, 174, 234, 212, 113, 126, 119, 77, 55, 34, 24,
           248, 112, 57, 169, 221, 139, 121, 43, 91, 250, 213, 222, 155, 123, 29, 62]"
    using base64_roundtrip
      [of "[80, 186, 6, 14, 192, 160, 174, 234, 212, 113, 126, 119, 77, 55, 34, 24,
           248, 112, 57, 169, 221, 139, 121, 43, 91, 250, 213, 222, 155, 123, 29, 62]"]
    unfolding base64_local_name .
  moreover have "keyData date_2024_09_28 None \<noteq> keyData date_2024_03_15 None"
    by (simp add: keyData_2024_09_28 keyData_2024_03_15)
  moreover have "decrypt date_2024_09_28
       [80, 186, 6, 14, 192, 160, 174, 234, 212, 113, 126, 119, 77, 55, 34, 24,
           248, 112, 57, 169, 221, 139, 121, 43, 91, 250, 213, 222, 155, 123, 29, 62]
     = Inr [176, 29, 22, 88, 237, 227, 154, 173, 236, 78, 235, 142, 131, 224, 40, 177,
           231, 182, 152, 248, 125, 251, 15, 147, 208, 208, 47, 93, 122, 45, 223]"
    using generate_key_succeeds [OF valid_date_2024_09_28(1)]
    by (simp add: decrypt_def decrypt_2024_09_28)
  ultimately show ?thesis
    using local_name_2024_03_15 [of date_2024_03_15] by simp
qed

subsection \<open>The session\<close>







subsection \<open>The exported functions\<close>




end
